theory Spec2Isabelle
  imports Complex_Main "HOL-Library.AList" "HOL-Library.Log_Nat"
begin

section \<open>Strings, ordered sets and ordered maps of the JavaScript runtime\<close>

text \<open>
  A JavaScript string is modelled as a \<^typ>\<open>string\<close> (a list of characters); the
  characters the analysed code inspects are ASCII. A JavaScript \<open>number\<close> that holds a
  count is a \<^typ>\<open>nat\<close>. A share of a count (a frequency, a tenth of the links, three
  tenths of the pages) is an exact rational (\<^typ>\<open>rat\<close>), compared with exact fractions:
  \<open>0.7\<close>, \<open>0.75\<close>, \<open>0.85\<close>, \<open>0.9\<close>, \<open>0.1\<close> and \<open>0.3\<close> are there \<open>7/10\<close>, \<open>75/100\<close>,
  \<open>85/100\<close>, \<open>9/10\<close>, \<open>1/10\<close> and \<open>3/10\<close>, and the rounding of these quotients and
  products is not modelled. The score of a page is computed in binary64 arithmetic (see
  the numbers of the runtime below). A \<open>Set\<close> is a duplicate-free list in insertion
  order, a \<open>Map\<close> is an association list with distinct keys in insertion order:
  \<open>Map.set\<close> is \<^const>\<open>AList.update\<close> (an existing key keeps its place), \<open>Map.get\<close> is
  \<^const>\<open>map_of\<close>.
\<close>

definition toLowerChar :: "char \<Rightarrow> char" where
  "toLowerChar c =
     (let n = (of_char c :: nat) in if 65 \<le> n \<and> n \<le> 90 then char_of (n + 32) else c)"

definition toUpperChar :: "char \<Rightarrow> char" where
  "toUpperChar c =
     (let n = (of_char c :: nat) in if 97 \<le> n \<and> n \<le> 122 then char_of (n - 32) else c)"

definition toLowerCase :: "string \<Rightarrow> string" where
  "toLowerCase s = map toLowerChar s"

text \<open>\<open>s.trim()\<close>: the white space of ASCII (tab to carriage return, and the space).\<close>

definition isWhiteSpace :: "char \<Rightarrow> bool" where
  "isWhiteSpace c = (let n = (of_char c :: nat) in (9 \<le> n \<and> n \<le> 13) \<or> n = 32)"

definition trim :: "string \<Rightarrow> string" where
  "trim s = rev (dropWhile isWhiteSpace (rev (dropWhile isWhiteSpace s)))"

fun startsWith :: "string \<Rightarrow> string \<Rightarrow> bool" where
  "startsWith s [] = True"
| "startsWith [] (p # ps) = False"
| "startsWith (c # cs) (p # ps) = (c = p \<and> startsWith cs ps)"

definition endsWith :: "string \<Rightarrow> string \<Rightarrow> bool" where
  "endsWith s p = startsWith (rev s) (rev p)"

text \<open>\<open>s.includes(sub)\<close>, which is also what an unanchored literal regular expression tests.\<close>

fun str_includes :: "string \<Rightarrow> string \<Rightarrow> bool" where
  "str_includes [] sub = (sub = [])"
| "str_includes (c # cs) sub = (startsWith (c # cs) sub \<or> str_includes cs sub)"

text \<open>
  \<open>s.split(sep)\<close> for a non-empty separator: the pieces between the non-overlapping
  occurrences of \<open>sep\<close>, found left to right. \<open>splitAcc\<close> carries the piece being read,
  reversed.
\<close>

fun splitAcc :: "string \<Rightarrow> string \<Rightarrow> string \<Rightarrow> string list" where
  "splitAcc sep acc [] = [rev acc]"
| "splitAcc sep acc (c # cs) =
     (if startsWith (c # cs) sep
      then rev acc # splitAcc sep [] (drop (length sep - 1) cs)
      else splitAcc sep (c # acc) cs)"

definition split :: "string \<Rightarrow> string \<Rightarrow> string list" where
  "split s sep = splitAcc sep [] s"

fun join :: "string list \<Rightarrow> string \<Rightarrow> string" where
  "join [] sep = []"
| "join [x] sep = x"
| "join (x # y # ys) sep = x @ sep @ join (y # ys) sep"

text \<open>\<open>Set.add\<close>: a new element goes last, an element already present changes nothing.\<close>

definition add :: "'a \<Rightarrow> 'a list \<Rightarrow> 'a list" where
  "add x xs = (if x \<in> set xs then xs else xs @ [x])"

text \<open>\<open>Map.has\<close>.\<close>

definition has :: "('k \<times> 'v) list \<Rightarrow> 'k \<Rightarrow> bool" where
  "has m k = (k \<in> set (map fst m))"

section \<open>Data model (crawler/types.ts, analyzer/types.ts, NoiseReducer.ts)\<close>

datatype LinkPosition = HEADER | NAVIGATION | CONTENT | FOOTER | SIDEBAR

text \<open>The fields \<open>text\<close> and \<open>context\<close> of \<open>Link\<close> are \<open>link_text\<close> and \<open>link_context\<close> here.\<close>

record Link =
  href :: string
  link_text :: string
  position :: LinkPosition
  link_context :: string

record PageMetadata =
  url :: string
  title :: string
  depth :: nat
  outgoingLinks :: "Link list"
  timestamp :: nat

type_synonym Pages = "(string \<times> PageMetadata) list"

record NavigationInfo =
  nav_url :: string
  frequency :: rat
  appearingOnPages :: nat
  totalPages :: nat
  linkText :: string
  positions :: "LinkPosition list"
  isStructural :: bool
  isGlobalNav :: bool

record NoiseReductionResult =
  cleanedPages :: Pages
  noiseLinks :: "string list"
  noiseCategories :: "(string \<times> string list) list"
  globalNavigation :: "(string \<times> NavigationInfo) list"
  hubPages :: "string list"

datatype NodeType = ENTRY | CONTENT_NODE | FORM | TRANSACTION | EXIT

record NodeMetadata =
  node_depth :: nat
  pageTitle :: string
  pathSegments :: "string list option"

record FlowNode =
  node_id :: string
  node_label :: "string option"
  node_url :: string
  node_type :: NodeType
  node_metadata :: NodeMetadata

record FlowEdge =
  source :: string
  target :: string
  weight :: nat
  label :: string

record FlowMetadata =
  startUrl :: string
  flow_totalPages :: nat
  noiseFiltered :: nat
  crawlTimestamp :: nat

record UserFlow =
  nodes :: "FlowNode list"
  edges :: "FlowEdge list"
  metadata :: FlowMetadata

section \<open>NoiseReducer\<close>

definition GLOBAL_NAV_THRESHOLD :: rat where
  "GLOBAL_NAV_THRESHOLD = 85 / 100"

definition HIGH_FREQUENCY_THRESHOLD :: rat where
  "HIGH_FREQUENCY_THRESHOLD = 75 / 100"

definition HUB_PAGE_THRESHOLD :: rat where
  "HUB_PAGE_THRESHOLD = 9 / 10"

text \<open>
  The three maps \<open>identifyGlobalNavigation\<close> fills while it reads the pages, and the
  \<open>seenLinks\<close> set of the page being read.
\<close>

record NavScan =
  linkFrequency :: "(string \<times> string list) list"
  linkTextMap :: "(string \<times> string) list"
  linkPositionMap :: "(string \<times> LinkPosition list) list"
  seenLinks :: "string list"

text \<open>The body of the inner \<open>forEach\<close>, for one link of the page \<open>pageUrl\<close>.\<close>

definition scanLink :: "string \<Rightarrow> Link \<Rightarrow> NavScan \<Rightarrow> NavScan" where
  "scanLink pageUrl link st =
     (if href link \<in> set (seenLinks st) then st
      else
        let st = st\<lparr>seenLinks := add (href link) (seenLinks st)\<rparr>;
            st = (if \<not> has (linkFrequency st) (href link)
                  then st\<lparr>linkFrequency := AList.update (href link) [] (linkFrequency st),
                          linkPositionMap := AList.update (href link) [] (linkPositionMap st)\<rparr>
                  else st);
            st = st\<lparr>linkFrequency :=
                    AList.update (href link)
                      (add pageUrl (case map_of (linkFrequency st) (href link) of
                                      Some s \<Rightarrow> s | None \<Rightarrow> []))
                      (linkFrequency st)\<rparr>;
            st = st\<lparr>linkPositionMap :=
                    AList.update (href link)
                      ((case map_of (linkPositionMap st) (href link) of
                          Some ps \<Rightarrow> ps | None \<Rightarrow> []) @ [position link])
                      (linkPositionMap st)\<rparr>
        in if \<not> has (linkTextMap st) (href link) \<and> link_text link \<noteq> []
           then st\<lparr>linkTextMap := AList.update (href link) (link_text link) (linkTextMap st)\<rparr>
           else st)"

definition scanPage :: "string \<times> PageMetadata \<Rightarrow> NavScan \<Rightarrow> NavScan" where
  "scanPage entry st =
     fold (scanLink (fst entry)) (outgoingLinks (snd entry)) (st\<lparr>seenLinks := []\<rparr>)"

definition isStructuralNavigation :: "LinkPosition list \<Rightarrow> bool" where
  "isStructuralNavigation ps =
     (let structuralPositions = [HEADER, NAVIGATION, FOOTER, SIDEBAR];
          structuralCount = length (filter (\<lambda>pos. pos \<in> set structuralPositions) ps)
      in of_nat structuralCount / of_nat (length ps) > (7 / 10 :: rat))"

text \<open>
  The body of the loop over \<open>linkFrequency\<close>: an href on at least 85% of the pages gets
  its \<open>NavigationInfo\<close>. \<open>pageCount\<close> is \<open>pages.size\<close>, \<open>st\<close> holds the three maps.
\<close>

definition navInfoStep ::
    "nat \<Rightarrow> NavScan \<Rightarrow> string \<times> string list \<Rightarrow> (string \<times> NavigationInfo) list
      \<Rightarrow> (string \<times> NavigationInfo) list" where
  "navInfoStep pageCount st entry globalNavLinks =
     (let link = fst entry;
          appearing = snd entry;
          freq = (of_nat (length appearing) / of_nat pageCount :: rat)
      in if freq \<ge> GLOBAL_NAV_THRESHOLD
         then
           let ps = (case map_of (linkPositionMap st) link of Some ps \<Rightarrow> ps | None \<Rightarrow> [])
           in AList.update link
                \<lparr>nav_url = link, frequency = freq,
                 appearingOnPages = length appearing, totalPages = pageCount,
                 linkText = (case map_of (linkTextMap st) link of Some t \<Rightarrow> t | None \<Rightarrow> []),
                 positions = ps, isStructural = isStructuralNavigation ps,
                 isGlobalNav = True\<rparr>
                globalNavLinks
         else globalNavLinks)"

definition identifyGlobalNavigation :: "Pages \<Rightarrow> (string \<times> NavigationInfo) list" where
  "identifyGlobalNavigation pages =
     (let total = length pages;
          st = fold scanPage pages
                 \<lparr>linkFrequency = [], linkTextMap = [], linkPositionMap = [], seenLinks = []\<rparr>
      in fold (navInfoStep total st) (linkFrequency st) [])"

text \<open>
  \<open>identifyHubPages\<close>: the loop that records, for every href, the set of pages that
  link to it, and the loop that keeps the hrefs linked from at least 90% of the pages.
\<close>

definition hubScanLink ::
    "string \<Rightarrow> Link \<Rightarrow> (string \<times> string list) list \<Rightarrow> (string \<times> string list) list" where
  "hubScanLink sourceUrl link incomingLinks =
     (let incomingLinks = (if \<not> has incomingLinks (href link)
                           then AList.update (href link) [] incomingLinks else incomingLinks)
      in AList.update (href link)
           (add sourceUrl (case map_of incomingLinks (href link) of
                             Some s \<Rightarrow> s | None \<Rightarrow> []))
           incomingLinks)"

definition hubScanPage ::
    "string \<times> PageMetadata \<Rightarrow> (string \<times> string list) list \<Rightarrow> (string \<times> string list) list" where
  "hubScanPage entry incomingLinks =
     fold (hubScanLink (fst entry)) (outgoingLinks (snd entry)) incomingLinks"

definition hubStep :: "nat \<Rightarrow> string \<times> string list \<Rightarrow> string list \<Rightarrow> string list" where
  "hubStep pageCount entry hubs =
     (let targetUrl = fst entry;
          sources = snd entry;
          freq = (of_nat (length sources) / of_nat pageCount :: rat)
      in if freq \<ge> HUB_PAGE_THRESHOLD then add targetUrl hubs else hubs)"

definition identifyHubPages :: "Pages \<Rightarrow> string list" where
  "identifyHubPages pages =
     (let total = length pages;
          incomingLinks = fold hubScanPage pages []
      in fold (hubStep total) incomingLinks [])"

definition identifyStructuralNoise :: "Pages \<Rightarrow> string list" where
  "identifyStructuralNoise pages =
     (let noisePositions = [FOOTER]
      in fold (\<lambda>(u, page) structuralLinks.
                 fold (\<lambda>link s. add (href link) s)
                   (filter (\<lambda>link. position link \<in> set noisePositions) (outgoingLinks page))
                   structuralLinks)
           pages [])"

text \<open>
  The sixteen \<open>lowValuePatterns\<close>, in the source's order. The first three carry the
  \<open>i\<close> flag and are tested on the lower-cased href; \<open>-?\<close> is written out as its two
  alternatives; a pattern that ends in \<open>$\<close> is a test of the end of the href.
\<close>

definition lowValueMatch :: "string \<Rightarrow> bool" where
  "lowValueMatch h =
     (let l = toLowerCase h
      in str_includes l ''logout''
       \<or> (str_includes l ''signout'' \<or> str_includes l ''sign-out'')
       \<or> (str_includes l ''logout'' \<or> str_includes l ''log-out'')
       \<or> str_includes h ''twitter.com''
       \<or> str_includes h ''facebook.com''
       \<or> str_includes h ''linkedin.com''
       \<or> str_includes h ''instagram.com''
       \<or> str_includes h ''youtube.com''
       \<or> str_includes h ''t.co/''
       \<or> endsWith h ''#''
       \<or> str_includes h ''javascript:''
       \<or> str_includes h ''mailto:''
       \<or> str_includes h ''tel:''
       \<or> endsWith h ''.rss''
       \<or> endsWith h ''.xml''
       \<or> str_includes h ''/feed'')"

definition identifyLowValueLinks :: "Pages \<Rightarrow> string list" where
  "identifyLowValueLinks pages =
     fold (\<lambda>(u, page) lowValueLinks.
             fold (\<lambda>link s. add (href link) s)
               (filter (\<lambda>link. lowValueMatch (href link)) (outgoingLinks page))
               lowValueLinks)
       pages []"

text \<open>
  \<open>new Set([...a, ...b, ...c])\<close> and the three loops that fill \<open>noiseCategories\<close>.
\<close>

definition tagCategory :: "string \<Rightarrow> string \<Rightarrow> (string \<times> string list) list
    \<Rightarrow> (string \<times> string list) list" where
  "tagCategory tag link cats =
     (let cats = (if \<not> has cats link then AList.update link [] cats else cats)
      in AList.update link
           ((case map_of cats link of Some ts \<Rightarrow> ts | None \<Rightarrow> []) @ [tag]) cats)"

text \<open>
  The loop that builds a cleaned page map: every page keeps its fields, and of its links
  those whose href is not in \<open>noise\<close>, in their order.
\<close>

definition cleanPages :: "string list \<Rightarrow> Pages \<Rightarrow> Pages" where
  "cleanPages noise pages =
     fold (\<lambda>(u, page) cleaned.
             let cleanedLinks = filter (\<lambda>link. href link \<notin> set noise) (outgoingLinks page)
             in AList.update u (page\<lparr>outgoingLinks := cleanedLinks\<rparr>) cleaned)
       pages []"

definition totalLinks :: "Pages \<Rightarrow> nat" where
  "totalLinks pages = fold (\<lambda>(u, p) sum. sum + length (outgoingLinks p)) pages 0"

text \<open>
  \<open>identifyRepetitiveLinks\<close>: the hrefs seen under every link text of three characters
  or more (lower-cased and trimmed), and the hrefs of the texts that stand for at least
  75% as many hrefs as there are pages.
\<close>

definition textScanLink ::
    "Link \<Rightarrow> (string \<times> string list) list \<Rightarrow> (string \<times> string list) list" where
  "textScanLink link linkTextFrequency =
     (let normalizedText = trim (toLowerCase (link_text link))
      in if normalizedText = [] \<or> length normalizedText < 3 then linkTextFrequency
         else
           let linkTextFrequency =
                 (if \<not> has linkTextFrequency normalizedText
                  then AList.update normalizedText [] linkTextFrequency
                  else linkTextFrequency)
           in AList.update normalizedText
                (add (href link) (case map_of linkTextFrequency normalizedText of
                                    Some s \<Rightarrow> s | None \<Rightarrow> []))
                linkTextFrequency)"

definition textScanPage ::
    "string \<times> PageMetadata \<Rightarrow> (string \<times> string list) list \<Rightarrow> (string \<times> string list) list" where
  "textScanPage entry linkTextFrequency =
     fold textScanLink (outgoingLinks (snd entry)) linkTextFrequency"

definition repetitiveStep :: "nat \<Rightarrow> string \<times> string list \<Rightarrow> string list \<Rightarrow> string list" where
  "repetitiveStep pageCount entry repetitiveLinks =
     (let urls = snd entry;
          freq = (of_nat (length urls) / of_nat pageCount :: rat)
      in if freq \<ge> HIGH_FREQUENCY_THRESHOLD then fold add urls repetitiveLinks
         else repetitiveLinks)"

definition identifyRepetitiveLinks :: "Pages \<Rightarrow> string list" where
  "identifyRepetitiveLinks pages =
     (let total = length pages;
          linkTextFrequency = fold textScanPage pages []
      in fold (repetitiveStep total) linkTextFrequency [])"

text \<open>
  \<open>reduceNoise\<close>. The result of \<open>identifyRepetitiveLinks\<close> is bound and never read, as in
  the source. The console output is left out.
\<close>

definition reduceNoise :: "Pages \<Rightarrow> NoiseReductionResult" where
  "reduceNoise pages =
     (let globalNav = identifyGlobalNavigation pages;
          hubs = identifyHubPages pages;
          structuralNoise = identifyStructuralNoise pages;
          lowValueLinks = identifyLowValueLinks pages;
          repetitiveLinks = identifyRepetitiveLinks pages;
          allNoiseLinks = fold add (map fst globalNav @ structuralNoise @ lowValueLinks) [];
          cats = fold (\<lambda>(link, info). tagCategory ''global_navigation'' link) globalNav [];
          cats = fold (tagCategory ''structural'') structuralNoise cats;
          cats = fold (tagCategory ''low_value'') lowValueLinks cats;
          cleaned = cleanPages allNoiseLinks pages;
          totalLinksBefore = totalLinks pages;
          totalLinksAfter = totalLinks cleaned
      in if (of_nat totalLinksAfter :: rat) < of_nat totalLinksBefore * (1 / 10)
         then
           let conservativeNoise = fold add lowValueLinks [];
               conservativeCleanedPages = cleanPages conservativeNoise pages
           in \<lparr>cleanedPages = conservativeCleanedPages, noiseLinks = conservativeNoise,
               noiseCategories = cats, globalNavigation = globalNav, hubPages = hubs\<rparr>
         else \<lparr>cleanedPages = cleaned, noiseLinks = allNoiseLinks,
               noiseCategories = cats, globalNavigation = globalNav, hubPages = hubs\<rparr>)"

section \<open>UrlUtils\<close>

text \<open>
  \<open>UrlUtils\<close> works on the \<open>URL\<close> class of the JavaScript platform, which is not code
  of this repository. The model of the class knows three outcomes of \<open>new URL(s)\<close>.

  \<^item> \<open>Throws\<close>: the platform first removes leading and trailing control characters and
    spaces and all tabs and newlines; a string that then does not start with a scheme
    (a letter, then letters, digits, \<open>+\<close>, \<open>-\<close>, \<open>.\<close>, then \<open>:\<close>) cannot be parsed
    without a base URL, and \<open>new URL\<close> throws.
  \<^item> \<open>Parsed\<close>: a plain URL, on which the parser of the platform only cuts the string.
    A plain URL is \<open>http://\<close> or \<open>https://\<close>, a host of labels of lower-case letters,
    digits and single hyphens joined by dots (every label starts and ends with a letter
    or digit, none starts with \<open>xn\<close>, the last one starts with a letter), then
    optionally a path of the characters that need no escape and without \<open>.\<close> and \<open>..\<close>
    segments, a query of \<open>name=value\<close> pairs over letters, digits, \<open>*\<close>, \<open>-\<close>, \<open>.\<close> and
    \<open>_\<close>, and a fragment of characters that need no escape. The empty path is \<open>/\<close>,
    the getter \<open>hash\<close> is empty for an empty fragment, and \<open>href\<close> puts the parts back
    together.
  \<^item> \<open>NotModelled\<close>: every other string (another scheme, a port, user info, an
    upper-case or numeric host, percent escapes, dot segments, ...). What the platform
    does with it is not modelled, and the functions below have the result \<open>None\<close>.

  \<open>localeCompare\<close> depends on the locale of the host; the comparison is a parameter
  \<open>cmp\<close> of \<open>normalize\<close> (negative, zero or positive, a consistent order), and
  \<open>Array.prototype.sort\<close> is the stable insertion sort \<open>sortEntries\<close>.
\<close>

record URL =
  protocol :: string
  host :: string
  pathname :: string
  searchParams :: "(string \<times> string) list"
  hash :: string

datatype ParseResult = Parsed URL | Throws | NotModelled

definition isLower :: "char \<Rightarrow> bool" where
  "isLower c = (let n = (of_char c :: nat) in 97 \<le> n \<and> n \<le> 122)"

definition isUpper :: "char \<Rightarrow> bool" where
  "isUpper c = (let n = (of_char c :: nat) in 65 \<le> n \<and> n \<le> 90)"

definition isDigit :: "char \<Rightarrow> bool" where
  "isDigit c = (let n = (of_char c :: nat) in 48 \<le> n \<and> n \<le> 57)"

definition isAlnum :: "char \<Rightarrow> bool" where
  "isAlnum c = (isLower c \<or> isUpper c \<or> isDigit c)"

definition isC0OrSpace :: "char \<Rightarrow> bool" where
  "isC0OrSpace c = ((of_char c :: nat) \<le> 32)"

definition isTabOrNewline :: "char \<Rightarrow> bool" where
  "isTabOrNewline c = (let n = (of_char c :: nat) in n = 9 \<or> n = 10 \<or> n = 13)"

definition cleanInput :: "string \<Rightarrow> string" where
  "cleanInput s =
     filter (\<lambda>c. \<not> isTabOrNewline c)
       (rev (dropWhile isC0OrSpace (rev (dropWhile isC0OrSpace s))))"

definition hasScheme :: "string \<Rightarrow> bool" where
  "hasScheme s =
     (case s of
        [] \<Rightarrow> False
      | c # cs \<Rightarrow>
          (isLower c \<or> isUpper c)
          \<and> (case dropWhile (\<lambda>d. isAlnum d \<or> d \<in> set ''+-.'') cs of
                [] \<Rightarrow> False
              | d # ds \<Rightarrow> d = CHR '':''))"

definition isPlainLabel :: "string \<Rightarrow> bool" where
  "isPlainLabel l =
     (l \<noteq> [] \<and> list_all (\<lambda>c. isLower c \<or> isDigit c \<or> c = CHR ''-'') l
      \<and> list_all (\<lambda>c. isLower c \<or> isDigit c) (take 1 l @ take 1 (rev l))
      \<and> \<not> str_includes l ''--'' \<and> \<not> startsWith l ''xn'')"

definition isPlainHost :: "string \<Rightarrow> bool" where
  "isPlainHost h =
     (let labels = split h ''.''
      in list_all isPlainLabel labels \<and> list_all isLower (take 1 (last labels)))"

definition isPlainPath :: "string \<Rightarrow> bool" where
  "isPlainPath p =
     (list_all (\<lambda>c. isAlnum c \<or> c \<in> set ''/-._~:@!$&()*+,;='') p
      \<and> list_all (\<lambda>seg. seg \<noteq> ''.'' \<and> seg \<noteq> ''..'') (split p ''/''))"

definition isPlainQuery :: "string \<Rightarrow> bool" where
  "isPlainQuery q =
     list_all (\<lambda>kv. list_all (\<lambda>c. isAlnum c \<or> c \<in> set ''*-._='') kv
                    \<and> length (filter (\<lambda>c. c = CHR ''='') kv) \<le> 1)
       (split q ''&'')"

definition isPlainFragment :: "string \<Rightarrow> bool" where
  "isPlainFragment f = list_all (\<lambda>c. isAlnum c \<or> c \<in> set ''/-._~:@!$&()*+,;=?#'') f"

definition parseParam :: "string \<Rightarrow> string \<times> string" where
  "parseParam kv = (takeWhile (\<lambda>c. c \<noteq> CHR ''='') kv, drop 1 (dropWhile (\<lambda>c. c \<noteq> CHR ''='') kv))"

definition parseQuery :: "string \<Rightarrow> (string \<times> string) list" where
  "parseQuery q = map parseParam (filter (\<lambda>kv. kv \<noteq> []) (split q ''&''))"

definition parseURL :: "string \<Rightarrow> ParseResult" where
  "parseURL input =
     (let s = cleanInput input;
          scheme = (if startsWith s ''http://'' then Some ''http:''
                    else if startsWith s ''https://'' then Some ''https:'' else None)
      in if \<not> hasScheme s then Throws
         else case scheme of
           None \<Rightarrow> NotModelled
         | Some proto \<Rightarrow>
             let rest = drop (length proto + 2) s;
                 inHost = (\<lambda>c. c \<noteq> CHR ''/'' \<and> c \<noteq> CHR ''?'' \<and> c \<noteq> CHR ''#'');
                 inPath = (\<lambda>c. c \<noteq> CHR ''?'' \<and> c \<noteq> CHR ''#'');
                 inQuery = (\<lambda>c. c \<noteq> CHR ''#'');
                 hostPart = takeWhile inHost rest;
                 rest = dropWhile inHost rest;
                 path = takeWhile inPath rest;
                 rest = dropWhile inPath rest;
                 query = takeWhile inQuery (if startsWith rest ''?'' then drop 1 rest else rest);
                 fragment = dropWhile inQuery rest
             in if isPlainHost hostPart \<and> isPlainPath path \<and> isPlainQuery query
                   \<and> isPlainFragment fragment
                then Parsed \<lparr>protocol = proto, host = hostPart,
                             pathname = (if path = [] then ''/'' else path),
                             searchParams = parseQuery query,
                             hash = (if length fragment \<le> 1 then [] else fragment)\<rparr>
                else NotModelled)"

text \<open>The getter \<open>href\<close>: the serialisation of the parts.\<close>

definition url_href :: "URL \<Rightarrow> string" where
  "url_href u =
     protocol u @ ''//'' @ host u @ pathname u
     @ (if searchParams u = [] then []
        else ''?'' @ join (map (\<lambda>(k, v). k @ ''='' @ v) (searchParams u)) ''&'')
     @ hash u"

text \<open>
  The stable sort of the entries by their keys: an entry is put before the first entry
  that \<open>cmp\<close> places after it.
\<close>

fun insertEntry ::
    "(string \<Rightarrow> string \<Rightarrow> int) \<Rightarrow> string \<times> string \<Rightarrow> (string \<times> string) list
      \<Rightarrow> (string \<times> string) list" where
  "insertEntry cmp x [] = [x]"
| "insertEntry cmp x (y # ys) =
     (if cmp (fst x) (fst y) < 0 then x # y # ys else y # insertEntry cmp x ys)"

definition sortEntries ::
    "(string \<Rightarrow> string \<Rightarrow> int) \<Rightarrow> (string \<times> string) list \<Rightarrow> (string \<times> string) list" where
  "sortEntries cmp xs = fold (insertEntry cmp) xs []"

text \<open>
  \<open>normalize\<close>: the \<open>catch\<close> branch returns the input of a \<open>new URL\<close> that throws.
\<close>

definition normalize :: "(string \<Rightarrow> string \<Rightarrow> int) \<Rightarrow> string \<Rightarrow> string option" where
  "normalize cmp s =
     (case parseURL s of
        Throws \<Rightarrow> Some s
      | NotModelled \<Rightarrow> None
      | Parsed parsed \<Rightarrow>
          let parsed = parsed\<lparr>hash := []\<rparr>;
              sortedParams = sortEntries cmp (searchParams parsed);
              parsed = parsed\<lparr>searchParams := []\<rparr>;
              parsed = fold (\<lambda>(k, v) u. u\<lparr>searchParams := searchParams u @ [(k, v)]\<rparr>)
                         sortedParams parsed;
              path = pathname parsed;
              path = (if endsWith path ''/'' \<and> length path > 1 then butlast path else path);
              parsed = parsed\<lparr>pathname := path\<rparr>
          in Some (url_href parsed))"

definition getPathSegments :: "string \<Rightarrow> string list option" where
  "getPathSegments s =
     (case parseURL s of
        Throws \<Rightarrow> Some []
      | NotModelled \<Rightarrow> None
      | Parsed urlObj \<Rightarrow>
          Some (filter (\<lambda>segment. length segment > 0) (split (pathname urlObj) ''/'')))"

section \<open>Numbers of the JavaScript runtime\<close>

text \<open>
  A JavaScript \<open>number\<close> is an IEEE 754 binary64 value. A count (a size, a length, a
  depth) is a \<^typ>\<open>nat\<close>: the integers up to \<open>2\<^sup>5\<^sup>3\<close> are binary64 values, and sums and
  products of such integers that stay below \<open>2\<^sup>5\<^sup>3\<close> are exact. The score of a page is a
  \<^typ>\<open>rat\<close> that is a binary64 value: every addition, subtraction and multiplication of
  the scorer is the exact operation followed by \<open>round64\<close>, the rounding to the nearest
  number with a significand of 53 bits, ties to the even significand. The exponent is
  not limited: the model has no overflow to \<open>Infinity\<close> (from \<open>2\<^sup>1\<^sup>0\<^sup>2\<^sup>4\<close> on) and no
  subnormal numbers (below \<open>2\<^sup>-\<^sup>1\<^sup>0\<^sup>2\<^sup>2\<close>).

  \<open>binade x\<close> is the exponent \<open>e\<close> of a positive \<open>x\<close>, the one with
  \<open>2\<^sup>e \<le> x < 2\<^sup>e\<^sup>+\<^sup>1\<close>, found from the bit lengths of the numerator and the
  denominator of \<open>x\<close>; \<open>double x\<close> is the value of a decimal literal \<open>x\<close> of the source.
\<close>

definition roundHalfEven :: "rat \<Rightarrow> int" where
  "roundHalfEven q =
     (let f = \<lfloor>q\<rfloor>; r = q - of_int f
      in if r < 1 / 2 then f else if 1 / 2 < r then f + 1 else if even f then f else f + 1)"

definition binade :: "rat \<Rightarrow> int" where
  "binade x =
     (let p = fst (quotient_of x); q = snd (quotient_of x); d = bitlen p - bitlen q
      in if 2 powi d \<le> x then d else d - 1)"

definition round64 :: "rat \<Rightarrow> rat" where
  "round64 x =
     (if x = 0 then 0
      else let a = \<bar>x\<bar>; u = 2 powi (binade a - 52)
           in sgn x * (of_int (roundHalfEven (a / u)) * u))"

definition double :: "rat \<Rightarrow> rat" where
  "double x = round64 x"

definition fadd :: "rat \<Rightarrow> rat \<Rightarrow> rat" where
  "fadd a b = round64 (a + b)"

definition fsub :: "rat \<Rightarrow> rat \<Rightarrow> rat" where
  "fsub a b = round64 (a - b)"

definition fmul :: "rat \<Rightarrow> rat \<Rightarrow> rat" where
  "fmul a b = round64 (a * b)"

section \<open>FlowAnalyzer\<close>

definition MAX_NODES_IN_FLOW :: nat where
  "MAX_NODES_IN_FLOW = 30"

text \<open>
  A regular expression of the scorer is a group of literal alternatives, anchored at the
  end of the string (\<open>$\<close>) or not: it matches when one alternative ends, or occurs in,
  the string.
\<close>

fun includesAny :: "string \<Rightarrow> string list \<Rightarrow> bool" where
  "includesAny s [] = False"
| "includesAny s (p # ps) = (str_includes s p \<or> includesAny s ps)"

fun endsWithAny :: "string \<Rightarrow> string list \<Rightarrow> bool" where
  "endsWithAny s [] = False"
| "endsWithAny s (p # ps) = (endsWith s p \<or> endsWithAny s ps)"

text \<open>
  \<open>calculatePageImportance\<close>: the running total \<open>score\<close> is rebound by every statement of
  the source, in the source's order, and every \<open>+=\<close>, \<open>*=\<close>, \<open>*\<close> and \<open>-\<close> is the binary64
  operation. \<open>incomingLinks.get(url) || 0\<close> reads a missing count as 0.
\<close>

definition calculatePageImportance ::
    "string \<Rightarrow> PageMetadata \<Rightarrow> Pages \<Rightarrow> (string \<times> nat) list \<Rightarrow> NoiseReductionResult \<Rightarrow> rat" where
  "calculatePageImportance u page allPages incomingLinks noiseResult =
     (let score = (0 :: rat);
          incoming = (case map_of incomingLinks u of Some n \<Rightarrow> n | None \<Rightarrow> 0);
          score = (if u \<notin> set (hubPages noiseResult)
                   then fadd score (fmul (of_nat incoming) 15)
                   else fadd score 40);
          score = fadd score (fmul (fsub 6 (of_nat (min (depth page) 6))) 10);
          score = (case map_of (cleanedPages noiseResult) u of
                     Some cleanedPage \<Rightarrow>
                       if length (outgoingLinks cleanedPage) > 0
                       then fadd score
                              (fmul (of_nat (min (length (outgoingLinks cleanedPage)) 15)) 4)
                       else score
                   | None \<Rightarrow> score);
          urlLower = toLowerCase u;
          score = (if endsWithAny urlLower [''/home'', ''/index'', ''/dashboard'', ''/main'']
                   then fadd score 100 else score);
          score = (if includesAny urlLower [''/login'', ''/signup'', ''/register'', ''/auth'']
                   then fadd score 80 else score);
          score = (if includesAny urlLower [''/checkout'', ''/cart'', ''/payment'', ''/order'']
                   then fadd score 80 else score);
          score = (if includesAny urlLower [''/product'', ''/item'', ''/detail'']
                   then fadd score 60 else score);
          score = (if includesAny urlLower [''/contact'', ''/support'', ''/help'']
                   then fadd score 50 else score);
          score = (if includesAny urlLower [''/profile'', ''/account'', ''/settings'']
                   then fadd score 60 else score);
          score = (if includesAny urlLower [''/search'', ''/results'']
                   then fadd score 50 else score);
          score = (if includesAny urlLower [''/category'', ''/collection'', ''/browse'']
                   then fadd score 45 else score);
          score = (if includesAny urlLower [''/about'', ''/info'']
                   then fadd score 35 else score);
          titleLower = toLowerCase (title page);
          score = (if includesAny titleLower [''home'', ''dashboard'', ''main'', ''overview'']
                   then fadd score 40 else score);
          score = (if includesAny titleLower [''login'', ''sign in'', ''register'', ''sign up'']
                   then fadd score 40 else score);
          score = (if includesAny titleLower [''checkout'', ''cart'', ''payment'']
                   then fadd score 40 else score);
          score = (if includesAny titleLower [''product'', ''item'', ''detail'']
                   then fadd score 30 else score);
          score = (if includesAny titleLower [''category'', ''collection'']
                   then fadd score 25 else score);
          score = (if has (globalNavigation noiseResult) u
                   then fmul score (double (7 / 10)) else score);
          score = fadd score 10
      in score)"

definition buildIncomingLinksMap :: "Pages \<Rightarrow> NoiseReductionResult \<Rightarrow> (string \<times> nat) list" where
  "buildIncomingLinksMap pages noiseResult =
     fold (\<lambda>(u, page) incomingLinks.
             fold (\<lambda>link incomingLinks.
                     if \<not> has (globalNavigation noiseResult) (href link)
                     then AList.update (href link)
                            ((case map_of incomingLinks (href link) of
                                Some n \<Rightarrow> n | None \<Rightarrow> 0) + 1)
                            incomingLinks
                     else incomingLinks)
               (outgoingLinks page) incomingLinks)
       (cleanedPages noiseResult) []"

text \<open>
  \<open>identifyKeyPages\<close>, in the three steps of the source: the scores and their stable
  sort in descending order (\<open>sortedPages\<close>; the comparison function is the binary64
  difference of two scores, which has the sign of their exact difference), the selection
  with the start page (\<open>selectedKeyPages\<close>, the set \<open>keyPages\<close> as it is when the
  safety check is reached), and the safety check. \<open>Array.from(pages.keys())[0]\<close> is
  \<open>undefined\<close> for an empty map; \<open>if (startPage)\<close> holds for a string that is defined
  and not empty.
\<close>

definition scoreStep ::
    "Pages \<Rightarrow> NoiseReductionResult \<Rightarrow> (string \<times> nat) list \<Rightarrow> string \<times> PageMetadata
      \<Rightarrow> (string \<times> rat) list \<Rightarrow> (string \<times> rat) list" where
  "scoreStep pages noiseResult incomingLinks entry scores =
     AList.update (fst entry)
       (calculatePageImportance (fst entry) (snd entry) pages incomingLinks noiseResult) scores"

definition pageScores ::
    "Pages \<Rightarrow> NoiseReductionResult \<Rightarrow> (string \<times> nat) list \<Rightarrow> (string \<times> rat) list" where
  "pageScores pages noiseResult incomingLinks =
     fold (scoreStep pages noiseResult incomingLinks) pages []"

definition sortedPages ::
    "Pages \<Rightarrow> NoiseReductionResult \<Rightarrow> (string \<times> nat) list \<Rightarrow> (string \<times> rat) list" where
  "sortedPages pages noiseResult incomingLinks =
     sort_key (\<lambda>(u, score). - score) (pageScores pages noiseResult incomingLinks)"

definition targetNodeCount :: "nat \<Rightarrow> nat" where
  "targetNodeCount n =
     (let minNodes = 10
      in max minNodes (min MAX_NODES_IN_FLOW (nat \<lceil>of_nat n * (3 / 10 :: rat)\<rceil>)))"

definition selectedKeyPages ::
    "Pages \<Rightarrow> NoiseReductionResult \<Rightarrow> (string \<times> nat) list \<Rightarrow> string list" where
  "selectedKeyPages pages noiseResult incomingLinks =
     (let topPages = take (targetNodeCount (length pages))
                       (sortedPages pages noiseResult incomingLinks);
          keyPages = fold (\<lambda>(u, score) keyPages. add u keyPages) topPages []
      in case pages of
           [] \<Rightarrow> keyPages
         | (startPage, p) # rest \<Rightarrow>
             if startPage \<noteq> [] then add startPage keyPages else keyPages)"

definition identifyKeyPages ::
    "Pages \<Rightarrow> NoiseReductionResult \<Rightarrow> (string \<times> nat) list \<Rightarrow> string list" where
  "identifyKeyPages pages noiseResult incomingLinks =
     (let keyPages = selectedKeyPages pages noiseResult incomingLinks
      in if length keyPages < 5 \<and> length pages \<ge> 5
         then fold (\<lambda>(u, score) keyPages. add u keyPages)
                (take (min 15 (length pages)) (sortedPages pages noiseResult incomingLinks))
                keyPages
         else keyPages)"

definition inferNodeType :: "string \<Rightarrow> string \<Rightarrow> NodeType" where
  "inferNodeType u pageTitle' =
     (let urlLower = toLowerCase u
      in if endsWith urlLower ''/'' \<or> str_includes urlLower ''/home''
            \<or> str_includes urlLower ''/index'' \<or> str_includes urlLower ''/dashboard''
         then ENTRY
         else if str_includes urlLower ''/login'' \<or> str_includes urlLower ''/signup''
            \<or> str_includes urlLower ''/register'' \<or> str_includes urlLower ''/contact''
         then FORM
         else if str_includes urlLower ''/checkout'' \<or> str_includes urlLower ''/payment''
            \<or> str_includes urlLower ''/cart'' \<or> str_includes urlLower ''/order''
         then TRANSACTION
         else if str_includes urlLower ''/thank'' \<or> str_includes urlLower ''/success''
            \<or> str_includes urlLower ''/confirm'' \<or> str_includes urlLower ''/complete''
         then EXIT
         else CONTENT_NODE)"

definition capitalize :: "string \<Rightarrow> string" where
  "capitalize word = (case word of [] \<Rightarrow> [] | c # cs \<Rightarrow> toUpperChar c # cs)"

text \<open>
  \<open>generateNodeLabel\<close> and the \<open>pathSegments\<close> of a node read the path of the URL; they
  are \<open>None\<close> where that needs the parse of a URL that is not modelled.
\<close>

definition generateNodeLabel :: "string \<Rightarrow> string \<Rightarrow> string option" where
  "generateNodeLabel u pageTitle' =
     (if pageTitle' \<noteq> [] \<and> length pageTitle' > 0 \<and> length pageTitle' < 50 then Some pageTitle'
      else
        case getPathSegments u of
          None \<Rightarrow> None
        | Some segments \<Rightarrow>
            if length segments = 0 then Some ''Home''
            else Some (join (map capitalize (split (last segments) ''-'')) '' ''))"

definition nodeStep ::
    "Pages \<Rightarrow> string \<Rightarrow> (string \<times> FlowNode) list \<Rightarrow> (string \<times> FlowNode) list" where
  "nodeStep pages u nodeMap =
     (case map_of pages u of
        None \<Rightarrow> nodeMap
      | Some page \<Rightarrow>
          AList.update u
            \<lparr>node_id = u, node_label = generateNodeLabel u (title page), node_url = u,
             node_type = inferNodeType u (title page),
             node_metadata = \<lparr>node_depth = depth page, pageTitle = title page,
                               pathSegments = getPathSegments u\<rparr>\<rparr>
            nodeMap)"

definition buildNodes :: "Pages \<Rightarrow> string list \<Rightarrow> (string \<times> FlowNode) list" where
  "buildNodes pages keyPages = fold (nodeStep pages) keyPages []"

text \<open>
  \<open>buildEdges\<close>: the entries of \<open>edgeMap\<close> are \<open>{count, label}\<close> objects under the key
  \<open>sourceUrl::href\<close>; the final loop splits every key at \<open>::\<close> and takes the first two
  pieces as source and target (a key always holds a \<open>::\<close>, so both exist).
\<close>

record EdgeData =
  count :: nat
  data_label :: string

definition addLinkToEdgeMap ::
    "string list \<Rightarrow> string \<Rightarrow> Link \<Rightarrow> (string \<times> EdgeData) list \<Rightarrow> (string \<times> EdgeData) list" where
  "addLinkToEdgeMap keyPages sourceUrl link edgeMap =
     (if href link \<notin> set keyPages then edgeMap
      else
        let edgeKey = sourceUrl @ ''::'' @ href link;
            edgeMap = (if \<not> has edgeMap edgeKey
                       then AList.update edgeKey \<lparr>count = 0, data_label = link_text link\<rparr> edgeMap
                       else edgeMap);
            edge = (case map_of edgeMap edgeKey of
                      Some e \<Rightarrow> e | None \<Rightarrow> \<lparr>count = 0, data_label = link_text link\<rparr>);
            edge = edge\<lparr>count := count edge + 1\<rparr>;
            edge = (if link_text link \<noteq> [] \<and> length (link_text link) > 0
                      \<and> length (link_text link) < length (data_label edge)
                    then edge\<lparr>data_label := link_text link\<rparr> else edge)
        in AList.update edgeKey edge edgeMap)"

definition buildEdges :: "Pages \<Rightarrow> string list \<Rightarrow> NoiseReductionResult \<Rightarrow> FlowEdge list" where
  "buildEdges pages keyPages noiseResult =
     (let edgeMap =
            fold (\<lambda>(sourceUrl, page) edgeMap.
                    if sourceUrl \<notin> set keyPages then edgeMap
                    else fold (addLinkToEdgeMap keyPages sourceUrl) (outgoingLinks page) edgeMap)
              (cleanedPages noiseResult) []
      in map (\<lambda>(key, edgeData).
                let parts = split key ''::''
                in \<lparr>source = (case parts of s # r \<Rightarrow> s | [] \<Rightarrow> []),
                    target = (case parts of s # t # r \<Rightarrow> t | _ \<Rightarrow> []),
                    weight = count edgeData, label = data_label edgeData\<rparr>)
           edgeMap)"

text \<open>\<open>analyze\<close>; \<open>now\<close> is the value of \<open>Date.now()\<close>.\<close>

definition analyze :: "Pages \<Rightarrow> string \<Rightarrow> nat \<Rightarrow> UserFlow" where
  "analyze pages startUrl' now =
     (let noiseResult = reduceNoise pages;
          incomingLinks = buildIncomingLinksMap pages noiseResult;
          keyPages = identifyKeyPages pages noiseResult incomingLinks;
          nodeMap = buildNodes pages keyPages;
          edgeList = buildEdges pages keyPages noiseResult
      in \<lparr>nodes = map snd nodeMap, edges = edgeList,
          metadata = \<lparr>startUrl = startUrl', flow_totalPages = length pages,
                       noiseFiltered = length (noiseLinks noiseResult),
                       crawlTimestamp = now\<rparr>\<rparr>)"

section \<open>Notions of the specification\<close>

text \<open>Every recorded link occurrence of a page map, page by page, in order.\<close>

definition allLinks :: "Pages \<Rightarrow> Link list" where
  "allLinks pages = concat (map (\<lambda>entry. outgoingLinks (snd entry)) pages)"

text \<open>
  Structural noise in the words of the specification (every recorded occurrence of the
  href is in the footer), and what the amended claim says (some occurrence is).
\<close>

definition everyOccurrenceInFooter :: "Pages \<Rightarrow> string \<Rightarrow> bool" where
  "everyOccurrenceInFooter pages h =
     (list_ex (\<lambda>l. href l = h) (allLinks pages)
      \<and> list_all (\<lambda>l. href l \<noteq> h \<or> position l = FOOTER) (allLinks pages))"

definition someOccurrenceInFooter :: "Pages \<Rightarrow> string \<Rightarrow> bool" where
  "someOccurrenceInFooter pages h =
     list_ex (\<lambda>l. href l = h \<and> position l = FOOTER) (allLinks pages)"

text \<open>
  The factors of the importance score, as the table of the specification names them;
  they are whole numbers. \<open>bonus b k\<close> is \<open>k\<close> when the pattern matched and 0 otherwise.
  \<open>additiveFactors\<close> is their sum without the flat base of 10.
\<close>

definition incomingCount :: "(string \<times> nat) list \<Rightarrow> string \<Rightarrow> nat" where
  "incomingCount incomingLinks u = (case map_of incomingLinks u of Some n \<Rightarrow> n | None \<Rightarrow> 0)"

definition cleanedOutgoingLinkCount :: "NoiseReductionResult \<Rightarrow> string \<Rightarrow> nat" where
  "cleanedOutgoingLinkCount noiseResult u =
     (case map_of (cleanedPages noiseResult) u of
        Some p \<Rightarrow> length (outgoingLinks p) | None \<Rightarrow> 0)"

definition bonus :: "bool \<Rightarrow> nat \<Rightarrow> nat" where
  "bonus b k = (if b then k else 0)"

definition popularityFactor :: "string \<Rightarrow> (string \<times> nat) list \<Rightarrow> NoiseReductionResult \<Rightarrow> nat" where
  "popularityFactor u incomingLinks noiseResult =
     (if u \<in> set (hubPages noiseResult) then 40
      else 15 * incomingCount incomingLinks u)"

definition depthFactor :: "PageMetadata \<Rightarrow> nat" where
  "depthFactor page = 10 * (6 - min (depth page) 6)"

definition outgoingFactor :: "NoiseReductionResult \<Rightarrow> string \<Rightarrow> nat" where
  "outgoingFactor noiseResult u = 4 * min (cleanedOutgoingLinkCount noiseResult u) 15"

definition urlPatternBonus :: "string \<Rightarrow> nat" where
  "urlPatternBonus u =
     (let l = toLowerCase u
      in bonus (endsWithAny l [''/home'', ''/index'', ''/dashboard'', ''/main'']) 100
       + bonus (includesAny l [''/login'', ''/signup'', ''/register'', ''/auth'']) 80
       + bonus (includesAny l [''/checkout'', ''/cart'', ''/payment'', ''/order'']) 80
       + bonus (includesAny l [''/product'', ''/item'', ''/detail'']) 60
       + bonus (includesAny l [''/contact'', ''/support'', ''/help'']) 50
       + bonus (includesAny l [''/profile'', ''/account'', ''/settings'']) 60
       + bonus (includesAny l [''/search'', ''/results'']) 50
       + bonus (includesAny l [''/category'', ''/collection'', ''/browse'']) 45
       + bonus (includesAny l [''/about'', ''/info'']) 35)"

definition titleKeywordBonus :: "string \<Rightarrow> nat" where
  "titleKeywordBonus t =
     (let l = toLowerCase t
      in bonus (includesAny l [''home'', ''dashboard'', ''main'', ''overview'']) 40
       + bonus (includesAny l [''login'', ''sign in'', ''register'', ''sign up'']) 40
       + bonus (includesAny l [''checkout'', ''cart'', ''payment'']) 40
       + bonus (includesAny l [''product'', ''item'', ''detail'']) 30
       + bonus (includesAny l [''category'', ''collection'']) 25)"

definition additiveFactors ::
    "string \<Rightarrow> PageMetadata \<Rightarrow> (string \<times> nat) list \<Rightarrow> NoiseReductionResult \<Rightarrow> nat" where
  "additiveFactors u page incomingLinks noiseResult =
     popularityFactor u incomingLinks noiseResult + depthFactor page
     + outgoingFactor noiseResult u + urlPatternBonus u + titleKeywordBonus (title page)"

text \<open>
  The score in the words of the specification (the penalty on the sum with the base),
  in exact arithmetic and in binary64 arithmetic, for the sum \<open>a\<close> of the additive
  factors.
\<close>

definition claimedScoreExact :: "nat \<Rightarrow> rat" where
  "claimedScoreExact a = of_nat (a + 10) * (7 / 10)"

definition claimedScore64 :: "nat \<Rightarrow> rat" where
  "claimedScore64 a = fmul (of_nat (a + 10)) (double (7 / 10))"

text \<open>
  The running total of the scorer after the five additive factors. \<open>addIf (c, k)\<close> is
  the statement \<open>if (c) score += k\<close>, and \<open>patternMatches\<close> is the table of the URL and
  title patterns: every test with its bonus, in the order of the source.
\<close>

definition addIf :: "bool \<times> nat \<Rightarrow> rat \<Rightarrow> rat" where
  "addIf b score = (if fst b then fadd score (of_nat (snd b)) else score)"

definition patternMatches :: "string \<Rightarrow> string \<Rightarrow> (bool \<times> nat) list" where
  "patternMatches u t =
     (let urlLower = toLowerCase u; titleLower = toLowerCase t
      in [(endsWithAny urlLower [''/home'', ''/index'', ''/dashboard'', ''/main''], 100),
          (includesAny urlLower [''/login'', ''/signup'', ''/register'', ''/auth''], 80),
          (includesAny urlLower [''/checkout'', ''/cart'', ''/payment'', ''/order''], 80),
          (includesAny urlLower [''/product'', ''/item'', ''/detail''], 60),
          (includesAny urlLower [''/contact'', ''/support'', ''/help''], 50),
          (includesAny urlLower [''/profile'', ''/account'', ''/settings''], 60),
          (includesAny urlLower [''/search'', ''/results''], 50),
          (includesAny urlLower [''/category'', ''/collection'', ''/browse''], 45),
          (includesAny urlLower [''/about'', ''/info''], 35),
          (includesAny titleLower [''home'', ''dashboard'', ''main'', ''overview''], 40),
          (includesAny titleLower [''login'', ''sign in'', ''register'', ''sign up''], 40),
          (includesAny titleLower [''checkout'', ''cart'', ''payment''], 40),
          (includesAny titleLower [''product'', ''item'', ''detail''], 30),
          (includesAny titleLower [''category'', ''collection''], 25)])"

definition additiveScore ::
    "string \<Rightarrow> PageMetadata \<Rightarrow> (string \<times> nat) list \<Rightarrow> NoiseReductionResult \<Rightarrow> rat" where
  "additiveScore u page incomingLinks noiseResult =
     (let score = (if u \<notin> set (hubPages noiseResult)
                   then fadd 0 (fmul (of_nat (incomingCount incomingLinks u)) 15)
                   else fadd 0 40);
          score = fadd score (fmul (fsub 6 (of_nat (min (depth page) 6))) 10);
          score = (if cleanedOutgoingLinkCount noiseResult u > 0
                   then fadd score
                          (fmul (of_nat (min (cleanedOutgoingLinkCount noiseResult u) 15)) 4)
                   else score)
      in fold addIf (patternMatches u (title page)) score)"

text \<open>
  Two ways to count the links that come into \<open>u\<close> over the cleaned pages: every link
  occurrence with that href, and, in the words of the specification, the pages other
  than \<open>u\<close> that hold such a link.
\<close>

definition linkOccurrences :: "NoiseReductionResult \<Rightarrow> string \<Rightarrow> nat" where
  "linkOccurrences noiseResult u =
     length (filter (\<lambda>l. href l = u) (allLinks (cleanedPages noiseResult)))"

definition distinctOtherSources :: "NoiseReductionResult \<Rightarrow> string \<Rightarrow> nat" where
  "distinctOtherSources noiseResult u =
     length (filter (\<lambda>entry. fst entry \<noteq> u \<and> list_ex (\<lambda>l. href l = u) (outgoingLinks (snd entry)))
               (cleanedPages noiseResult))"

text \<open>
  The noise set of the aggressive pass (global navigation, structural noise and
  low-value links together), and the test of the safety check: the links left after the
  aggressive pass are fewer than a tenth of the links before it.
\<close>

definition aggressiveNoise :: "Pages \<Rightarrow> string list" where
  "aggressiveNoise pages =
     fold add (map fst (identifyGlobalNavigation pages) @ identifyStructuralNoise pages
               @ identifyLowValueLinks pages) []"

definition removedTooMuch :: "Pages \<Rightarrow> bool" where
  "removedTooMuch pages =
     ((of_nat (totalLinks (cleanPages (aggressiveNoise pages) pages)) :: rat)
        < (1 / 10) * of_nat (totalLinks pages))"

text \<open>The set \<open>keyPages\<close> that \<open>analyze\<close> computes for a page map.\<close>

definition analyzeKeyPages :: "Pages \<Rightarrow> string list" where
  "analyzeKeyPages pages =
     identifyKeyPages pages (reduceNoise pages)
       (buildIncomingLinksMap pages (reduceNoise pages))"

section \<open>Example crawls\<close>

definition mkLink :: "string \<Rightarrow> string \<Rightarrow> LinkPosition \<Rightarrow> Link" where
  "mkLink h t pos = \<lparr>href = h, link_text = t, position = pos, link_context = []\<rparr>"

definition mkPage :: "string \<Rightarrow> string \<Rightarrow> nat \<Rightarrow> Link list \<Rightarrow> string \<times> PageMetadata" where
  "mkPage u t d ls = (u, \<lparr>url = u, title = t, depth = d, outgoingLinks = ls, timestamp = 0\<rparr>)"

text \<open>A home page that links to its About page from the content and from the footer.\<close>

definition footerCrawl :: Pages where
  "footerCrawl =
     [mkPage ''http://a.io/'' ''Welcome'' 0
        [mkLink ''http://a.io/about'' ''About us'' CONTENT,
         mkLink ''http://a.io/about'' ''About'' FOOTER],
      mkPage ''http://a.io/about'' ''About'' 1 []]"

text \<open>Two pages whose only link is the About entry of the header menu.\<close>

definition navCrawl :: Pages where
  "navCrawl =
     [mkPage ''http://a.io/'' ''Welcome'' 0 [mkLink ''http://a.io/about'' ''About'' HEADER],
      mkPage ''http://a.io/about'' ''Company'' 1 [mkLink ''http://a.io/about'' ''About'' HEADER]]"

text \<open>
  A start page that links to the shop twice, first through an image (a link without
  text), then through a text link; the shop links back.
\<close>

definition shopCrawl :: Pages where
  "shopCrawl =
     [mkPage ''http://a.io/'' ''Welcome'' 0
        [mkLink ''http://a.io/shop'' [] CONTENT,
         mkLink ''http://a.io/shop'' ''Shop'' CONTENT],
      mkPage ''http://a.io/shop'' ''Shop'' 1 [mkLink ''http://a.io/'' ''Back'' CONTENT]]"

text \<open>A documentation site whose start page has \<open>::\<close> in its path.\<close>

definition podCrawl :: Pages where
  "podCrawl =
     [mkPage ''http://a.io/pod/A::B'' ''A::B'' 0 [mkLink ''http://a.io/c'' ''next'' CONTENT],
      mkPage ''http://a.io/c'' ''C'' 1 []]"

text \<open>
  A shop: the start page \<open>s\<close> links to \<open>n\<close> product pages, which have no links of their
  own. The product pages are numbered in unary (\<open>.../product/1\<close>, \<open>.../product/11\<close>, ...).
\<close>

definition itemUrl :: "nat \<Rightarrow> string" where
  "itemUrl i = ''http://a.io/category/product/'' @ replicate i (CHR ''1'')"

definition itemPage :: "nat \<Rightarrow> string \<times> PageMetadata" where
  "itemPage i = mkPage (itemUrl i) ''Product'' 1 []"

definition catalogCrawl :: "string \<Rightarrow> nat \<Rightarrow> Pages" where
  "catalogCrawl s n =
     mkPage s ''Welcome'' 0 (map (\<lambda>i. mkLink (itemUrl i) ''Product'' CONTENT) [1..<Suc n])
     # map itemPage [1..<Suc n]"

section \<open>Rounding to binary64\<close>

text \<open>
  Rounding keeps a number on its side of every whole number below \<open>2\<^sup>5\<^sup>3\<close>, so the
  whole numbers below \<open>2\<^sup>5\<^sup>3\<close> are binary64 numbers and their sums, differences and
  products below \<open>2\<^sup>5\<^sup>3\<close> are exact.
\<close>

lemma roundHalfEven_bounds: "\<lfloor>q\<rfloor> \<le> roundHalfEven q" "roundHalfEven q \<le> \<lceil>q\<rceil>"
proof -
  show "\<lfloor>q\<rfloor> \<le> roundHalfEven q"
    by (simp add: roundHalfEven_def Let_def)
  have "\<lfloor>q\<rfloor> \<le> \<lceil>q\<rceil>"
    by (rule floor_le_ceiling)
  moreover have "\<lfloor>q\<rfloor> + 1 \<le> \<lceil>q\<rceil>" if "q - of_int \<lfloor>q\<rfloor> \<noteq> 0"
    using that by (metis ceiling_altdef diff_self order_refl)
  ultimately show "roundHalfEven q \<le> \<lceil>q\<rceil>"
    by (auto simp: roundHalfEven_def Let_def)
qed

lemma binade_lower:
  assumes "0 < x"
  shows "2 powi binade x \<le> x"
proof -
  obtain p q where pq: "quotient_of x = (p, q)"
    by (cases "quotient_of x")
  have q: "0 < q"
    using pq by (rule quotient_of_denom_pos)
  have x: "x = of_int p / of_int q"
    using pq by (rule quotient_of_div)
  have p: "0 < p"
    using assms q by (simp add: x zero_less_divide_iff)
  let ?d = "bitlen p - bitlen q"
  have "2 powi (?d - 1) \<le> x"
  proof -
    have bp: "(2::int) ^ nat (bitlen p - 1) \<le> p" and bq: "q < 2 ^ nat (bitlen q)"
      using bitlen_bounds [OF p] bitlen_bounds [OF q] by simp_all
    have p1: "1 \<le> bitlen p"
      using p by (metis bitlen_eq_zero_iff bitlen_nonneg linorder_not_less zle_add1_eq_le zero_less_one_class.zero_le_one add.left_neutral order_le_less)
    have "(2::rat) powi (bitlen p - 1) \<le> of_int p"
    proof -
      have "(of_int ((2::int) ^ nat (bitlen p - 1)) :: rat) \<le> of_int p"
        using bp by (simp only: of_int_le_iff)
      then show ?thesis
        using p1 by (simp add: power_int_def)
    qed
    moreover have "(of_int q :: rat) \<le> 2 powi bitlen q"
    proof -
      have "(of_int q :: rat) \<le> of_int ((2::int) ^ nat (bitlen q))"
        using bq by (simp only: of_int_le_iff)
      then show ?thesis
        using bitlen_nonneg [of q] by (simp add: power_int_def)
    qed
    ultimately have "(2::rat) powi (bitlen p - 1) / 2 powi bitlen q \<le> of_int p / of_int q"
      using p q by (intro frac_le) simp_all
    moreover have "(2::rat) powi (?d - 1) = 2 powi (bitlen p - 1) / 2 powi bitlen q"
      by (simp add: power_int_diff)
    ultimately show ?thesis
      unfolding x by simp
  qed
  then show ?thesis
    by (simp add: binade_def pq Let_def)
qed

lemma binade_upper:
  assumes "0 < x"
  shows "x < 2 powi (binade x + 1)"
proof -
  obtain p q where pq: "quotient_of x = (p, q)"
    by (cases "quotient_of x")
  have q: "0 < q"
    using pq by (rule quotient_of_denom_pos)
  have x: "x = of_int p / of_int q"
    using pq by (rule quotient_of_div)
  have p: "0 < p"
    using assms q by (simp add: x zero_less_divide_iff)
  let ?d = "bitlen p - bitlen q"
  have "x < 2 powi (?d + 1)"
  proof -
    have bp: "p < 2 ^ nat (bitlen p)" and bq: "(2::int) ^ nat (bitlen q - 1) \<le> q"
      using bitlen_bounds [OF p] bitlen_bounds [OF q] by simp_all
    have q1: "1 \<le> bitlen q"
      using q bitlen_nonneg [of q] bitlen_eq_zero_iff [of q] by linarith
    have "(of_int p :: rat) < 2 powi bitlen p"
    proof -
      have "(of_int p :: rat) < of_int ((2::int) ^ nat (bitlen p))"
        using bp by (simp only: of_int_less_iff)
      then show ?thesis
        using bitlen_nonneg [of p] by (simp add: power_int_def)
    qed
    moreover have "(2::rat) powi (bitlen q - 1) \<le> of_int q"
    proof -
      have "(of_int ((2::int) ^ nat (bitlen q - 1)) :: rat) \<le> of_int q"
        using bq by (simp only: of_int_le_iff)
      then show ?thesis
        using q1 by (simp add: power_int_def)
    qed
    ultimately have "of_int p / of_int q < (2::rat) powi bitlen p / 2 powi (bitlen q - 1)"
      using p q by (intro frac_less) simp_all
    moreover have "(2::rat) powi (?d + 1) = 2 powi bitlen p / 2 powi (bitlen q - 1)"
      by (simp add: power_int_diff power_int_add)
    ultimately show ?thesis
      unfolding x by simp
  qed
  then show ?thesis
    by (auto simp: binade_def pq Let_def)
qed

lemma roundHalfEven_error: "\<bar>of_int (roundHalfEven q) - q\<bar> \<le> 1 / 2"
proof -
  have "of_int \<lfloor>q\<rfloor> \<le> q" "q < of_int \<lfloor>q\<rfloor> + 1"
    by linarith+
  then show ?thesis
    by (auto simp: roundHalfEven_def Let_def abs_le_iff)
qed

text \<open>
  The rounded number is a significand of at most 53 bits times the unit of the binade,
  not further from the number than half a unit.
\<close>

lemma round64_error:
  assumes "0 < x"
  shows "round64 x = of_int (roundHalfEven (x / 2 powi (binade x - 52))) * 2 powi (binade x - 52)"
    and "2 ^ 52 \<le> roundHalfEven (x / 2 powi (binade x - 52))"
    and "roundHalfEven (x / 2 powi (binade x - 52)) \<le> 2 ^ 53"
    and "\<bar>round64 x - x\<bar> \<le> 2 powi (binade x - 52) / 2"
proof -
  let ?u = "(2::rat) powi (binade x - 52)"
  let ?n = "roundHalfEven (x / ?u)"
  have u: "0 < ?u"
    by simp
  show r: "round64 x = of_int ?n * ?u"
    using assms by (simp add: round64_def Let_def)
  have "(2::rat) powi binade x / ?u = 2 ^ 52"
    by (simp add: power_int_diff)
  moreover have "2 powi binade x / ?u \<le> x / ?u"
    using binade_lower [OF assms] u by (intro divide_right_mono) simp_all
  ultimately have "(of_int (2 ^ 52) :: rat) \<le> x / ?u"
    by simp
  then have "2 ^ 52 \<le> \<lfloor>x / ?u\<rfloor>"
    by (simp only: le_floor_iff)
  then show "2 ^ 52 \<le> ?n"
    using roundHalfEven_bounds(1) [of "x / ?u"] by linarith
  have "(2::rat) powi (binade x + 1) / ?u = 2 ^ 53"
    by (simp add: power_int_diff power_int_add)
  moreover have "x / ?u \<le> 2 powi (binade x + 1) / ?u"
    using binade_upper [OF assms] u by (intro divide_right_mono) simp_all
  ultimately have "x / ?u \<le> of_int (2 ^ 53)"
    by simp
  then have "\<lceil>x / ?u\<rceil> \<le> 2 ^ 53"
    by (simp only: ceiling_le_iff)
  then show "?n \<le> 2 ^ 53"
    using roundHalfEven_bounds(2) [of "x / ?u"] by linarith
  have "\<bar>of_int ?n - x / ?u\<bar> * ?u \<le> (1 / 2) * ?u"
    using roundHalfEven_error [of "x / ?u"] u by (intro mult_right_mono) simp_all
  moreover have "\<bar>of_int ?n - x / ?u\<bar> * ?u = \<bar>of_int ?n * ?u - x\<bar>"
  proof -
    have "\<bar>of_int ?n - x / ?u\<bar> * ?u = \<bar>(of_int ?n - x / ?u) * ?u\<bar>"
      using u by (simp add: abs_mult)
    also have "(of_int ?n - x / ?u) * ?u = of_int ?n * ?u - x"
      using u by (simp add: left_diff_distrib)
    finally show ?thesis .
  qed
  ultimately show "\<bar>round64 x - x\<bar> \<le> ?u / 2"
    by (simp add: r)
qed

lemma round64_nonneg: "0 \<le> x \<Longrightarrow> 0 \<le> round64 x"
proof -
  assume x: "0 \<le> x"
  have "0 \<le> roundHalfEven (\<bar>x\<bar> / 2 powi (binade \<bar>x\<bar> - 52))"
  proof -
    have "(0::rat) \<le> \<bar>x\<bar> / 2 powi (binade \<bar>x\<bar> - 52)"
      by simp
    then have "0 \<le> \<lfloor>\<bar>x\<bar> / 2 powi (binade \<bar>x\<bar> - 52)\<rfloor>"
      by simp
    then show ?thesis
      using roundHalfEven_bounds(1) [of "\<bar>x\<bar> / 2 powi (binade \<bar>x\<bar> - 52)"] by linarith
  qed
  then show ?thesis
    using x by (simp add: round64_def Let_def sgn_if)
qed

text \<open>Rounding does not cross a natural number below \<open>2\<^sup>5\<^sup>3\<close>.\<close>

lemma round64_ge_nat:
  assumes ax: "of_nat a \<le> x" and a: "a < 2 ^ 53"
  shows "of_nat a \<le> round64 x"
proof (cases "a = 0")
  case True
  then show ?thesis
    using ax round64_nonneg [of x] by simp
next
  case False
  then have x: "0 < x"
    using ax by (metis of_nat_0_less_iff less_le_trans neq0_conv)
  let ?e = "binade x"
  let ?u = "(2::rat) powi (?e - 52)"
  let ?n = "roundHalfEven (x / ?u)"
  have u: "0 < ?u"
    by simp
  have r: "round64 x = of_int ?n * ?u"
    using x by (simp add: round64_def Let_def)
  show ?thesis
  proof (cases "?e \<le> 52")
    case True
    have inv: "1 / ?u = of_nat (2 ^ nat (52 - ?e))"
      using True by (simp add: power_int_def power_int_minus [symmetric] field_simps)
    have au: "of_nat a / ?u = of_int (int (a * 2 ^ nat (52 - ?e)))"
      using inv by (simp add: field_simps)
    have "of_nat a / ?u \<le> x / ?u"
      using ax u by (simp add: divide_right_mono)
    then have "int (a * 2 ^ nat (52 - ?e)) \<le> \<lfloor>x / ?u\<rfloor>"
      unfolding au by (simp only: le_floor_iff)
    then have "int (a * 2 ^ nat (52 - ?e)) \<le> ?n"
      using roundHalfEven_bounds(1) [of "x / ?u"] by linarith
    then have "(of_int (int (a * 2 ^ nat (52 - ?e))) :: rat) \<le> of_int ?n"
      by (simp only: of_int_le_iff)
    then have "of_nat a / ?u \<le> of_int ?n"
      unfolding au .
    then show ?thesis
      unfolding r using u by (simp add: pos_divide_le_eq)
  next
    case False
    then have e: "53 \<le> ?e"
      by simp
    have "(2::rat) powi ?e \<le> x"
      by (rule binade_lower [OF x])
    then have "(2::rat) powi ?e / ?u \<le> x / ?u"
      using u by (simp add: divide_right_mono)
    moreover have "(2::rat) powi ?e / ?u = of_int (2 ^ 52)"
      by (simp add: power_int_diff)
    ultimately have "(2::int) ^ 52 \<le> \<lfloor>x / ?u\<rfloor>"
      by (simp only: le_floor_iff)
    then have "(2::int) ^ 52 \<le> ?n"
      using roundHalfEven_bounds(1) [of "x / ?u"] by linarith
    then have "(of_int (2 ^ 52) :: rat) \<le> of_int ?n"
      by (simp only: of_int_le_iff)
    then have "of_int (2 ^ 52) * ?u \<le> of_int ?n * ?u"
      using u by (simp only: mult_le_cancel_right_pos)
    moreover have "of_int (2 ^ 52) * ?u = (2::rat) powi ?e"
      by (simp add: power_int_diff)
    moreover have "(2::rat) ^ 53 \<le> 2 powi ?e"
    proof -
      have "(2::rat) powi 53 \<le> 2 powi ?e"
        using e by (intro power_int_increasing) simp_all
      then show ?thesis by simp
    qed
    moreover have "(of_nat a :: rat) < 2 ^ 53"
      using a by (metis of_nat_less_iff of_nat_numeral of_nat_power)
    ultimately show ?thesis
      unfolding r by linarith
  qed
qed

lemma round64_le_nat:
  assumes x0: "0 \<le> x" and xa: "x \<le> of_nat a" and a: "a < 2 ^ 53"
  shows "round64 x \<le> of_nat a"
proof (cases "x = 0")
  case True
  then show ?thesis
    by (simp add: round64_def)
next
  case False
  then have x: "0 < x"
    using x0 by simp
  let ?e = "binade x"
  let ?u = "(2::rat) powi (?e - 52)"
  let ?n = "roundHalfEven (x / ?u)"
  have u: "0 < ?u"
    by simp
  have r: "round64 x = of_int ?n * ?u"
    using x by (simp add: round64_def Let_def)
  have "?e \<le> 52"
  proof (rule ccontr)
    assume "\<not> ?e \<le> 52"
    then have "(2::rat) powi 53 \<le> 2 powi ?e"
      by (intro power_int_increasing) simp_all
    then have "(2::rat) ^ 53 \<le> x"
      using binade_lower [OF x] by simp
    moreover have "(of_nat a :: rat) < 2 ^ 53"
      using a by (metis of_nat_less_iff of_nat_numeral of_nat_power)
    ultimately show False
      using xa by linarith
  qed
  then have inv: "1 / ?u = of_nat (2 ^ nat (52 - ?e))"
    by (simp add: power_int_def field_simps)
  have au: "of_nat a / ?u = of_int (int (a * 2 ^ nat (52 - ?e)))"
    using inv by (simp add: field_simps)
  have "x / ?u \<le> of_nat a / ?u"
    using xa u by (simp add: divide_right_mono)
  then have "\<lceil>x / ?u\<rceil> \<le> int (a * 2 ^ nat (52 - ?e))"
    unfolding au by (simp only: ceiling_le_iff)
  then have "?n \<le> int (a * 2 ^ nat (52 - ?e))"
    using roundHalfEven_bounds(2) [of "x / ?u"] by linarith
  then have "(of_int ?n :: rat) \<le> of_int (int (a * 2 ^ nat (52 - ?e)))"
    by (simp only: of_int_le_iff)
  then have "of_int ?n \<le> of_nat a / ?u"
    unfolding au .
  then show ?thesis
    unfolding r using u by (simp add: pos_le_divide_eq)
qed

lemma round64_nat: "a < 2 ^ 53 \<Longrightarrow> round64 (of_nat a) = of_nat a"
  using round64_ge_nat [of a "of_nat a"] round64_le_nat [of "of_nat a" a]
  by (simp add: order_antisym)

lemma fadd_nat: "a + b < 2 ^ 53 \<Longrightarrow> fadd (of_nat a) (of_nat b) = of_nat (a + b)"
  using round64_nat [of "a + b"] by (simp add: fadd_def)

lemma fmul_nat: "a * b < 2 ^ 53 \<Longrightarrow> fmul (of_nat a) (of_nat b) = of_nat (a * b)"
  using round64_nat [of "a * b"] by (simp add: fmul_def)

lemma fsub_nat: "b \<le> a \<Longrightarrow> a < 2 ^ 53 \<Longrightarrow> fsub (of_nat a) (of_nat b) = of_nat (a - b)"
  using round64_nat [of "a - b"] by (simp add: fsub_def of_nat_diff)

lemma double_7_10: "double (7 / 10) = 3152519739159347 / 4503599627370496"
  by code_simp

lemma double_7_10_bounds: "0 \<le> double (7 / 10)" "double (7 / 10) \<le> 1"
  by (simp_all add: double_7_10)

section \<open>Sets built by \<open>Set.add\<close>\<close>

lemma set_add [simp]: "set (add x xs) = insert x (set xs)"
  by (auto simp: add_def)

lemma distinct_add [simp]: "distinct (add x xs) = distinct xs"
  by (auto simp: add_def)

lemma set_fold_add_href:
  "set (fold (\<lambda>link s. add (f link) s) ls acc) = set acc \<union> f ` set ls"
  by (induction ls arbitrary: acc) auto

lemma distinct_fold_add_href:
  "distinct acc \<Longrightarrow> distinct (fold (\<lambda>link s. add (f link) s) ls acc)"
  by (induction ls arbitrary: acc) auto

lemma fold_add_distinct:
  "distinct xs \<Longrightarrow> set xs \<inter> set acc = {} \<Longrightarrow> fold add xs acc = acc @ xs"
  by (induction xs arbitrary: acc) (auto simp: add_def)

text \<open>
  The loop shared by \<open>identifyStructuralNoise\<close> and \<open>identifyLowValueLinks\<close>: the hrefs
  of the links that pass the filter \<open>P\<close>, over all pages.
\<close>

lemma set_collect_hrefs:
  "set (fold (\<lambda>(u, page) s.
               fold (\<lambda>link s. add (href link) s) (filter P (outgoingLinks page)) s) pages acc)
     = set acc \<union> href ` {l \<in> set (allLinks pages). P l}"
proof (induction pages arbitrary: acc)
  case Nil
  then show ?case by (simp add: allLinks_def)
next
  case (Cons e pages)
  obtain u page where e: "e = (u, page)" by (cases e)
  show ?case
    by (auto simp: e Cons.IH set_fold_add_href allLinks_def)
qed

lemma distinct_collect_hrefs:
  "distinct acc \<Longrightarrow>
   distinct (fold (\<lambda>(u, page) s.
                    fold (\<lambda>link s. add (href link) s) (filter P (outgoingLinks page)) s) pages acc)"
proof (induction pages arbitrary: acc)
  case Nil
  then show ?case by simp
next
  case (Cons e pages)
  obtain u page where e: "e = (u, page)" by (cases e)
  show ?case
    using Cons.prems by (simp add: e Cons.IH distinct_fold_add_href)
qed

section \<open>Structural noise\<close>

text \<open>
  Claim C2, as the specification states it, fails: an href with one footer occurrence and
  one content occurrence is structural noise for \<open>identifyStructuralNoise\<close>, although not
  every occurrence of it is in the footer.
\<close>

theorem structural_noise_counterexample:
  "''http://a.io/about'' \<in> set (identifyStructuralNoise footerCrawl)
   \<and> \<not> everyOccurrenceInFooter footerCrawl ''http://a.io/about''"
  by code_simp

text \<open>
  Claim C2, amended: for every page map, the structural-noise set holds exactly the
  hrefs that have at least one recorded occurrence in FOOTER position.
\<close>

theorem structural_noise_some_footer:
  "h \<in> set (identifyStructuralNoise pages) \<longleftrightarrow> someOccurrenceInFooter pages h"
  by (auto simp: identifyStructuralNoise_def someOccurrenceInFooter_def set_collect_hrefs
      list_ex_iff)

theorem structural_noise_some_footer_witness:
  "someOccurrenceInFooter footerCrawl ''http://a.io/about''
   \<and> ''http://a.io/about'' \<in> set (identifyStructuralNoise footerCrawl)"
proof -
  have a: "someOccurrenceInFooter footerCrawl ''http://a.io/about''"
    by code_simp
  from a structural_noise_some_footer [of "''http://a.io/about''" footerCrawl]
  show ?thesis by simp
qed

section \<open>The safety fallback of the noise reduction\<close>

lemma distinct_identifyLowValueLinks: "distinct (identifyLowValueLinks pages)"
  unfolding identifyLowValueLinks_def by (rule distinct_collect_hrefs) simp

lemma conservativeNoise_eq:
  "fold add (identifyLowValueLinks pages) [] = identifyLowValueLinks pages"
  using fold_add_distinct [OF distinct_identifyLowValueLinks [of pages], of "[]"] by simp

text \<open>
  Claim C3: \<open>reduceNoise\<close> returns the conservative result exactly when the aggressive
  pass left fewer than a tenth of the links. Then \<open>noiseLinks\<close> is the low-value set and
  \<open>cleanedPages\<close> is the input filtered by that set alone, so the links of the global
  navigation and the structural noise are back; otherwise both come from the aggressive
  noise set. In either case \<open>globalNavigation\<close> and \<open>hubPages\<close> are the ones computed from
  the input.
\<close>

theorem reduceNoise_safety_fallback:
  "(removedTooMuch pages \<longrightarrow>
      noiseLinks (reduceNoise pages) = identifyLowValueLinks pages
      \<and> cleanedPages (reduceNoise pages) = cleanPages (identifyLowValueLinks pages) pages)
   \<and> (\<not> removedTooMuch pages \<longrightarrow>
      noiseLinks (reduceNoise pages) = aggressiveNoise pages
      \<and> cleanedPages (reduceNoise pages) = cleanPages (aggressiveNoise pages) pages)
   \<and> globalNavigation (reduceNoise pages) = identifyGlobalNavigation pages
   \<and> hubPages (reduceNoise pages) = identifyHubPages pages"
  by (simp add: reduceNoise_def Let_def removedTooMuch_def aggressiveNoise_def
      conservativeNoise_eq mult.commute)

theorem reduceNoise_safety_fallback_witness:
  "removedTooMuch navCrawl
   \<and> noiseLinks (reduceNoise navCrawl) = identifyLowValueLinks navCrawl
   \<and> cleanedPages (reduceNoise navCrawl) = navCrawl
   \<and> map fst (globalNavigation (reduceNoise navCrawl)) = [''http://a.io/about'']
   \<and> \<not> removedTooMuch shopCrawl
   \<and> noiseLinks (reduceNoise shopCrawl) = aggressiveNoise shopCrawl"
proof -
  have a: "removedTooMuch navCrawl"
    by code_simp
  have b: "\<not> removedTooMuch shopCrawl"
    by code_simp
  have c: "cleanPages (identifyLowValueLinks navCrawl) navCrawl = navCrawl"
    by code_simp
  have d: "map fst (identifyGlobalNavigation navCrawl) = [''http://a.io/about'']"
    by code_simp
  from a b c d reduceNoise_safety_fallback [of navCrawl]
    reduceNoise_safety_fallback [of shopCrawl]
  show ?thesis by simp
qed

section \<open>Incoming link counts\<close>

lemma fold_pages_links:
  "fold (\<lambda>(u, page) m. fold step (outgoingLinks page) m) pages m0
     = fold step (allLinks pages) m0"
  by (induction pages arbitrary: m0) (auto simp: allLinks_def)

lemma incomingCount_step:
  "incomingCount (fold (\<lambda>link incomingLinks.
                     if \<not> has gn (href link)
                     then AList.update (href link)
                            ((case map_of incomingLinks (href link) of
                                Some n \<Rightarrow> n | None \<Rightarrow> 0) + 1)
                            incomingLinks
                     else incomingLinks) ls m) u
     = (if has gn u then incomingCount m u
        else incomingCount m u + length (filter (\<lambda>l. href l = u) ls))"
  by (induction ls arbitrary: m) (auto simp: incomingCount_def update_conv' split: option.splits)

text \<open>
  Claim C5, as the specification states it, fails: the start page of \<open>shopCrawl\<close> links
  to the shop twice, and the count of the shop is 2, while one page other than the shop
  links to it.
\<close>

theorem incoming_counts_counterexample:
  "incomingCount (buildIncomingLinksMap shopCrawl (reduceNoise shopCrawl)) ''http://a.io/shop'' = 2
   \<and> distinctOtherSources (reduceNoise shopCrawl) ''http://a.io/shop'' = 1"
  by code_simp

text \<open>
  Claim C5, amended: the incoming count of \<open>u\<close>, as the scorer reads it (a missing entry
  is 0), is 0 when \<open>u\<close> is an href of the global navigation, and otherwise the number
  of link occurrences with href \<open>u\<close> over all cleaned pages: every occurrence counts, a
  repeated link of one page and a link of \<open>u\<close> to itself included.
\<close>

theorem incoming_counts_occurrences:
  "incomingCount (buildIncomingLinksMap pages noiseResult) u
     = (if has (globalNavigation noiseResult) u then 0 else linkOccurrences noiseResult u)"
  by (simp add: buildIncomingLinksMap_def fold_pages_links incomingCount_step
      linkOccurrences_def)
     (simp add: incomingCount_def)

theorem incoming_counts_occurrences_witness:
  "\<not> has (globalNavigation (reduceNoise shopCrawl)) ''http://a.io/shop''
   \<and> linkOccurrences (reduceNoise shopCrawl) ''http://a.io/shop'' = 2
   \<and> incomingCount (buildIncomingLinksMap shopCrawl (reduceNoise shopCrawl)) ''http://a.io/shop''
       = 2"
proof -
  have a: "\<not> has (globalNavigation (reduceNoise shopCrawl)) ''http://a.io/shop''"
    by code_simp
  have b: "linkOccurrences (reduceNoise shopCrawl) ''http://a.io/shop'' = 2"
    by code_simp
  from a b
    incoming_counts_occurrences [of shopCrawl "reduceNoise shopCrawl" "''http://a.io/shop''"]
  show ?thesis by simp
qed

section \<open>The importance score\<close>

lemma bonus_le: "bonus c k \<le> k"
  by (simp add: bonus_def)

lemma urlPatternBonus_le: "urlPatternBonus u \<le> 560"
proof -
  have "urlPatternBonus u \<le> 100 + 80 + 80 + 60 + 50 + 60 + 50 + 45 + 35"
    unfolding urlPatternBonus_def Let_def by (intro add_mono bonus_le)
  then show ?thesis
    by simp
qed

lemma titleKeywordBonus_le: "titleKeywordBonus t \<le> 175"
proof -
  have "titleKeywordBonus t \<le> 40 + 40 + 40 + 30 + 25"
    unfolding titleKeywordBonus_def Let_def by (intro add_mono bonus_le)
  then show ?thesis
    by simp
qed

lemma depthFactor_le: "depthFactor page \<le> 60"
  by (simp add: depthFactor_def)

lemma outgoingFactor_le: "outgoingFactor noiseResult u \<le> 60"
  by (simp add: outgoingFactor_def)

lemma sum_patternMatches:
  "sum_list (map (\<lambda>b. bonus (fst b) (snd b)) (patternMatches u t))
     = urlPatternBonus u + titleKeywordBonus t"
  by (simp add: patternMatches_def urlPatternBonus_def titleKeywordBonus_def Let_def)

text \<open>The conditional additions are exact on whole numbers below \<open>2\<^sup>5\<^sup>3\<close>.\<close>

lemma fold_addIf_nat:
  "m + sum_list (map (\<lambda>b. bonus (fst b) (snd b)) bs) < 2 ^ 53
   \<Longrightarrow> fold addIf bs (of_nat m) = of_nat (m + sum_list (map (\<lambda>b. bonus (fst b) (snd b)) bs))"
proof (induction bs arbitrary: m)
  case Nil
  then show ?case
    by simp
next
  case (Cons b bs)
  let ?k = "bonus (fst b) (snd b)"
  have lt: "m + ?k + sum_list (map (\<lambda>b. bonus (fst b) (snd b)) bs) < 2 ^ 53"
    using Cons.prems by (simp add: add.assoc)
  then have "m + ?k < 2 ^ 53"
    by linarith
  then have "addIf b (of_nat m) = of_nat (m + ?k)"
    by (auto simp: addIf_def bonus_def fadd_nat)
  then show ?case
    using Cons.IH [OF lt] by (simp add: add.assoc)
qed

lemma fold_addIf_ge:
  "of_nat m \<le> s \<Longrightarrow> m + sum_list (map (\<lambda>b. bonus (fst b) (snd b)) bs) < 2 ^ 53
   \<Longrightarrow> of_nat (m + sum_list (map (\<lambda>b. bonus (fst b) (snd b)) bs)) \<le> fold addIf bs s"
proof (induction bs arbitrary: m s)
  case Nil
  then show ?case
    by simp
next
  case (Cons b bs)
  let ?k = "bonus (fst b) (snd b)"
  have lt: "m + ?k + sum_list (map (\<lambda>b. bonus (fst b) (snd b)) bs) < 2 ^ 53"
    using Cons.prems(2) by (simp add: add.assoc)
  then have k: "m + ?k < 2 ^ 53"
    by linarith
  have "of_nat (m + ?k) \<le> addIf b s"
  proof (cases "fst b")
    case True
    have "of_nat (m + snd b) \<le> round64 (s + of_nat (snd b))"
      using Cons.prems(1) k True by (intro round64_ge_nat) (simp_all add: bonus_def)
    then show ?thesis
      using True by (simp add: addIf_def bonus_def fadd_def)
  next
    case False
    then show ?thesis
      using Cons.prems(1) by (simp add: addIf_def bonus_def)
  qed
  from Cons.IH [OF this lt] show ?case
    by (simp add: add.assoc)
qed

text \<open>The scorer, with its first five factors folded into \<open>additiveScore\<close>.\<close>

lemma if_addIf: "(if c then fadd s (numeral k) else s) = addIf (c, numeral k) s"
  by (simp add: addIf_def)

lemma calculatePageImportance_chain:
  "calculatePageImportance u page allPages incomingLinks noiseResult
     = fadd (if has (globalNavigation noiseResult) u
             then fmul (additiveScore u page incomingLinks noiseResult) (double (7 / 10))
             else additiveScore u page incomingLinks noiseResult) 10"
  unfolding calculatePageImportance_def additiveScore_def patternMatches_def
  apply (simp only: Let_def if_addIf fold_simps)
  apply (simp add: incomingCount_def cleanedOutgoingLinkCount_def split: option.split)
  done

lemma additiveScore_nat:
  assumes "additiveFactors u page incomingLinks noiseResult < 2 ^ 53"
  shows "additiveScore u page incomingLinks noiseResult
           = of_nat (additiveFactors u page incomingLinks noiseResult)"
proof -
  let ?P = "popularityFactor u incomingLinks noiseResult"
  let ?D = "depthFactor page"
  let ?O = "outgoingFactor noiseResult u"
  let ?B = "sum_list (map (\<lambda>b. bonus (fst b) (snd b)) (patternMatches u (title page)))"
  have lt: "?P + ?D + ?O + ?B < 2 ^ 53"
    using assms by (simp add: additiveFactors_def sum_patternMatches add.assoc)
  have p: "(if u \<notin> set (hubPages noiseResult)
            then fadd 0 (fmul (of_nat (incomingCount incomingLinks u)) 15)
            else fadd 0 40) = of_nat ?P"
  proof (cases "u \<in> set (hubPages noiseResult)")
    case True
    then show ?thesis
      using fadd_nat [of 0 40] by (simp add: popularityFactor_def)
  next
    case False
    have "incomingCount incomingLinks u * 15 < 2 ^ 53"
      using lt False by (simp add: popularityFactor_def)
    then show ?thesis
      using False fmul_nat [of "incomingCount incomingLinks u" 15]
        fadd_nat [of 0 "incomingCount incomingLinks u * 15"]
      by (simp add: popularityFactor_def mult.commute)
  qed
  have "fsub 6 (of_nat (min (depth page) 6)) = of_nat (6 - min (depth page) 6)"
    using fsub_nat [of "min (depth page) 6" 6] by simp
  then have "fmul (fsub 6 (of_nat (min (depth page) 6))) 10 = of_nat ?D"
    using fmul_nat [of "6 - min (depth page) 6" 10]
    by (simp add: depthFactor_def mult.commute)
  then have d: "fadd (of_nat ?P) (fmul (fsub 6 (of_nat (min (depth page) 6))) 10)
                  = of_nat (?P + ?D)"
    using lt by (simp add: fadd_nat)
  have om: "fmul (of_nat (min (cleanedOutgoingLinkCount noiseResult u) 15)) 4 = of_nat ?O"
    using fmul_nat [of "min (cleanedOutgoingLinkCount noiseResult u) 15" 4]
    by (simp add: outgoingFactor_def mult.commute)
  have o: "(if cleanedOutgoingLinkCount noiseResult u > 0
            then fadd (of_nat (?P + ?D))
                   (fmul (of_nat (min (cleanedOutgoingLinkCount noiseResult u) 15)) 4)
            else of_nat (?P + ?D)) = of_nat (?P + ?D + ?O)"
  proof (cases "cleanedOutgoingLinkCount noiseResult u > 0")
    case True
    have "?P + ?D + ?O < 2 ^ 53"
      using lt by linarith
    then have "fadd (of_nat (?P + ?D)) (of_nat ?O) = of_nat (?P + ?D + ?O)"
      by (rule fadd_nat)
    then show ?thesis
      using True by (simp only: om if_True)
  next
    case False
    then have "?O = 0"
      by (simp add: outgoingFactor_def)
    then show ?thesis
      using False by simp
  qed
  have "additiveScore u page incomingLinks noiseResult
          = fold addIf (patternMatches u (title page)) (of_nat (?P + ?D + ?O))"
    unfolding additiveScore_def Let_def p d o by (rule refl)
  also have "\<dots> = of_nat (?P + ?D + ?O + ?B)"
    by (rule fold_addIf_nat [OF lt])
  finally show ?thesis
    by (simp only: additiveFactors_def sum_patternMatches add.assoc)
qed

lemma additiveScore_ge:
  "of_nat (depthFactor page + urlPatternBonus u + titleKeywordBonus (title page))
     \<le> additiveScore u page incomingLinks noiseResult"
proof -
  let ?D = "depthFactor page"
  let ?B = "sum_list (map (\<lambda>b. bonus (fst b) (snd b)) (patternMatches u (title page)))"
  define s1 where "s1 = (if u \<notin> set (hubPages noiseResult)
            then fadd 0 (fmul (of_nat (incomingCount incomingLinks u)) 15)
            else fadd 0 40)"
  define s2 where "s2 = fadd s1 (fmul (fsub 6 (of_nat (min (depth page) 6))) 10)"
  define s3 where "s3 = (if cleanedOutgoingLinkCount noiseResult u > 0
                 then fadd s2 (fmul (of_nat (min (cleanedOutgoingLinkCount noiseResult u) 15)) 4)
                 else s2)"
  have s1: "0 \<le> s1"
    by (simp add: s1_def fadd_def fmul_def round64_nonneg)
  have "fsub 6 (of_nat (min (depth page) 6)) = of_nat (6 - min (depth page) 6)"
    using fsub_nat [of "min (depth page) 6" 6] by simp
  then have "fmul (fsub 6 (of_nat (min (depth page) 6))) 10 = of_nat ?D"
    using fmul_nat [of "6 - min (depth page) 6" 10]
    by (simp add: depthFactor_def mult.commute)
  then have "s2 = round64 (s1 + of_nat ?D)"
    by (simp add: s2_def fadd_def)
  moreover have "of_nat ?D \<le> round64 (s1 + of_nat ?D)"
    using s1 depthFactor_le [of page] by (intro round64_ge_nat) simp_all
  ultimately have s2: "of_nat ?D \<le> s2"
    by simp
  have "0 \<le> fmul (of_nat (min (cleanedOutgoingLinkCount noiseResult u) 15)) 4"
    by (simp add: fmul_def round64_nonneg)
  then have "of_nat ?D \<le> round64 (s2 + fmul (of_nat (min (cleanedOutgoingLinkCount noiseResult u) 15)) 4)"
    using s2 depthFactor_le [of page] by (intro round64_ge_nat) simp_all
  then have s3: "of_nat ?D \<le> s3"
    using s2 by (simp add: s3_def fadd_def)
  have "?D + ?B < 2 ^ 53"
    using depthFactor_le [of page] urlPatternBonus_le [of u]
      titleKeywordBonus_le [of "title page"]
    by (simp add: sum_patternMatches)
  from fold_addIf_ge [OF s3 this]
  have "of_nat (?D + ?B) \<le> fold addIf (patternMatches u (title page)) s3" .
  then show ?thesis
    unfolding additiveScore_def Let_def s1_def s2_def s3_def
    by (simp add: sum_patternMatches add.assoc)
qed

lemma score_lower:
  assumes "185 \<le> depthFactor page + urlPatternBonus u + titleKeywordBonus (title page)"
  shows "139 \<le> calculatePageImportance u page allPages incomingLinks noiseResult"
proof -
  let ?S = "additiveScore u page incomingLinks noiseResult"
  let ?T = "if has (globalNavigation noiseResult) u then fmul ?S (double (7 / 10)) else ?S"
  have "(of_nat 185 :: rat)
          \<le> of_nat (depthFactor page + urlPatternBonus u + titleKeywordBonus (title page))"
    using assms by (intro of_nat_mono)
  also have "\<dots> \<le> ?S"
    by (rule additiveScore_ge)
  finally have s: "185 \<le> ?S"
    by simp
  have "(of_nat 129 :: rat) \<le> 185 * double (7 / 10)"
    by (simp add: double_7_10)
  also have "\<dots> \<le> ?S * double (7 / 10)"
    using s double_7_10_bounds(1) by (intro mult_right_mono)
  finally have "of_nat 129 \<le> round64 (?S * double (7 / 10))"
    by (intro round64_ge_nat) simp_all
  then have "129 \<le> ?T"
    using s by (simp add: fmul_def)
  then have "of_nat 139 \<le> round64 (?T + 10)"
    by (intro round64_ge_nat) simp_all
  then show ?thesis
    by (simp add: calculatePageImportance_chain fadd_def)
qed

lemma score_upper:
  assumes "u \<notin> set (hubPages noiseResult)" and "incomingCount incomingLinks u = 0"
  shows "calculatePageImportance u page allPages incomingLinks noiseResult
           \<le> of_nat (depthFactor page + 60 + urlPatternBonus u + titleKeywordBonus (title page)
                      + 10)"
proof -
  let ?A = "additiveFactors u page incomingLinks noiseResult"
  let ?S = "additiveScore u page incomingLinks noiseResult"
  let ?T = "if has (globalNavigation noiseResult) u then fmul ?S (double (7 / 10)) else ?S"
  have p: "popularityFactor u incomingLinks noiseResult = 0"
    using assms by (simp add: popularityFactor_def)
  have au: "?A \<le> depthFactor page + 60 + urlPatternBonus u + titleKeywordBonus (title page)"
    using outgoingFactor_le [of noiseResult u] by (simp add: additiveFactors_def p)
  have small: "?A + 10 < 2 ^ 53"
    using au depthFactor_le [of page] urlPatternBonus_le [of u]
      titleKeywordBonus_le [of "title page"] by simp
  then have s: "?S = of_nat ?A"
    by (intro additiveScore_nat) simp
  have "of_nat ?A * double (7 / 10) \<le> (of_nat ?A :: rat) * 1"
    using double_7_10_bounds(2) by (intro mult_left_mono) simp_all
  then have "round64 (of_nat ?A * double (7 / 10)) \<le> of_nat ?A"
    using small double_7_10_bounds(1) by (intro round64_le_nat) simp_all
  moreover have "0 \<le> round64 (of_nat ?A * double (7 / 10))"
    using double_7_10_bounds(1) by (intro round64_nonneg) simp
  ultimately have t: "0 \<le> ?T" "?T \<le> of_nat ?A"
    by (simp_all add: s fmul_def)
  have "round64 (?T + 10) \<le> of_nat (?A + 10)"
    using t small by (intro round64_le_nat) simp_all
  also have "\<dots> \<le> of_nat (depthFactor page + 60 + urlPatternBonus u
                            + titleKeywordBonus (title page) + 10)"
    using au by (intro of_nat_mono) simp
  finally show ?thesis
    by (simp add: calculatePageImportance_chain fadd_def)
qed

text \<open>
  Claim C1, as the specification states it, fails: the About page of \<open>navCrawl\<close> is
  global navigation, the sum of its additive factors is 129, and its score is not the
  sum of the additive factors and the base, times 0.7, neither in binary64 arithmetic
  nor in exact arithmetic (the code gives the binary64 number next to 100.3, the formula
  of the claim 97.3).
\<close>

theorem importance_penalty_counterexample:
  "has (globalNavigation (reduceNoise navCrawl)) ''http://a.io/about''
   \<and> additiveFactors ''http://a.io/about'' (snd (navCrawl ! 1))
         (buildIncomingLinksMap navCrawl (reduceNoise navCrawl)) (reduceNoise navCrawl) = 129
   \<and> calculatePageImportance ''http://a.io/about'' (snd (navCrawl ! 1)) navCrawl
         (buildIncomingLinksMap navCrawl (reduceNoise navCrawl)) (reduceNoise navCrawl)
       = 7057985041019699 / 70368744177664
   \<and> claimedScore64 129 = 6846878808486707 / 70368744177664
   \<and> claimedScoreExact 129 = 973 / 10
   \<and> calculatePageImportance ''http://a.io/about'' (snd (navCrawl ! 1)) navCrawl
         (buildIncomingLinksMap navCrawl (reduceNoise navCrawl)) (reduceNoise navCrawl)
       \<noteq> claimedScore64 129
   \<and> calculatePageImportance ''http://a.io/about'' (snd (navCrawl ! 1)) navCrawl
         (buildIncomingLinksMap navCrawl (reduceNoise navCrawl)) (reduceNoise navCrawl)
       \<noteq> claimedScoreExact 129"
  by code_simp

text \<open>
  Claim C1, amended: the penalty is one binary64 multiplication by the literal \<open>0.7\<close> of
  the sum of the additive factors without the base, and the flat base of 10 is added
  after it, unscaled, by a binary64 addition; for a page that is not global navigation
  the score is the sum of the additive factors plus the base, exactly. This holds
  whenever the sum with the base is below \<open>2\<^sup>5\<^sup>3\<close>, where the additive factors are computed
  without rounding.
\<close>

theorem importance_penalty_before_base:
  assumes "additiveFactors u page incomingLinks noiseResult + 10 < 2 ^ 53"
  shows "calculatePageImportance u page allPages incomingLinks noiseResult
           = (if has (globalNavigation noiseResult) u
              then fadd (fmul (of_nat (additiveFactors u page incomingLinks noiseResult))
                           (double (7 / 10))) 10
              else of_nat (additiveFactors u page incomingLinks noiseResult + 10))"
proof -
  have "additiveScore u page incomingLinks noiseResult
          = of_nat (additiveFactors u page incomingLinks noiseResult)"
    using assms by (intro additiveScore_nat) simp
  moreover have "fadd (of_nat (additiveFactors u page incomingLinks noiseResult)) (of_nat 10)
                   = of_nat (additiveFactors u page incomingLinks noiseResult + 10)"
    using assms by (rule fadd_nat)
  ultimately show ?thesis
    by (simp add: calculatePageImportance_chain)
qed

theorem importance_penalty_before_base_witness:
  "has (globalNavigation (reduceNoise navCrawl)) ''http://a.io/about''
   \<and> additiveFactors ''http://a.io/about'' (snd (navCrawl ! 1))
         (buildIncomingLinksMap navCrawl (reduceNoise navCrawl)) (reduceNoise navCrawl) = 129
   \<and> calculatePageImportance ''http://a.io/about'' (snd (navCrawl ! 1)) navCrawl
         (buildIncomingLinksMap navCrawl (reduceNoise navCrawl)) (reduceNoise navCrawl)
       = fadd (fmul 129 (double (7 / 10))) 10
   \<and> \<not> has (globalNavigation (reduceNoise shopCrawl)) ''http://a.io/shop''
   \<and> additiveFactors ''http://a.io/shop'' (snd (shopCrawl ! 1))
         (buildIncomingLinksMap shopCrawl (reduceNoise shopCrawl)) (reduceNoise shopCrawl) = 84
   \<and> calculatePageImportance ''http://a.io/shop'' (snd (shopCrawl ! 1)) shopCrawl
         (buildIncomingLinksMap shopCrawl (reduceNoise shopCrawl)) (reduceNoise shopCrawl)
       = 94"
proof -
  have a: "has (globalNavigation (reduceNoise navCrawl)) ''http://a.io/about''"
    by code_simp
  have b: "additiveFactors ''http://a.io/about'' (snd (navCrawl ! 1))
         (buildIncomingLinksMap navCrawl (reduceNoise navCrawl)) (reduceNoise navCrawl) = 129"
    by code_simp
  have c: "\<not> has (globalNavigation (reduceNoise shopCrawl)) ''http://a.io/shop''"
    by code_simp
  have d: "additiveFactors ''http://a.io/shop'' (snd (shopCrawl ! 1))
         (buildIncomingLinksMap shopCrawl (reduceNoise shopCrawl)) (reduceNoise shopCrawl) = 84"
    by code_simp
  from a b c d
    importance_penalty_before_base [of "''http://a.io/about''" "snd (navCrawl ! 1)"
      "buildIncomingLinksMap navCrawl (reduceNoise navCrawl)" "reduceNoise navCrawl" navCrawl]
    importance_penalty_before_base [of "''http://a.io/shop''" "snd (shopCrawl ! 1)"
      "buildIncomingLinksMap shopCrawl (reduceNoise shopCrawl)" "reduceNoise shopCrawl"
      shopCrawl]
  show ?thesis by simp
qed

section \<open>Edge labels, edge endpoints and the URL normalizer on concrete inputs\<close>

text \<open>
  Claim C6 (the label of an edge is the shortest non-empty anchor text seen for its pair
  of key pages, and is not empty when some occurrence has a text) does not hold of
  \<open>buildEdges\<close> at \<open>shopCrawl\<close>: the start page links to the shop first without text and
  then with the text \<open>Shop\<close>, and the edge from the start page to the shop has weight 2
  and the empty label. The first text seen is stored as it is, and no later text is
  shorter than the empty one.
\<close>

theorem edge_label_stays_empty:
  "edges (analyze shopCrawl ''http://a.io/'' 0)
     = [\<lparr>source = ''http://a.io/'', target = ''http://a.io/shop'', weight = 2, label = []\<rparr>,
        \<lparr>source = ''http://a.io/shop'', target = ''http://a.io/'', weight = 1,
          label = ''Back''\<rparr>]"
  by code_simp

text \<open>
  Claim C7 (the source and the target of every edge of the flow that \<open>analyze\<close> returns
  are ids of nodes of that flow) does not hold at \<open>podCrawl\<close>: both pages are nodes, and
  the one edge of the flow has a source and a target that are the id of no node, since
  the key of the edge is split at the \<open>::\<close> inside the URL of the start page.
\<close>

theorem edge_endpoints_dangle:
  "map node_id (nodes (analyze podCrawl ''http://a.io/pod/A::B'' 0))
     = [''http://a.io/c'', ''http://a.io/pod/A::B'']
   \<and> edges (analyze podCrawl ''http://a.io/pod/A::B'' 0)
     = [\<lparr>source = ''http://a.io/pod/A'', target = ''B'', weight = 1, label = ''next''\<rparr>]"
  by code_simp

text \<open>
  Claim C8 (\<open>normalize\<close> is idempotent) does not hold at \<open>http://a.com/b//\<close>, whatever the
  order of \<open>localeCompare\<close>: each call removes one trailing slash, so the second call
  changes the result of the first.
\<close>

theorem normalize_twice_differs:
  "\<forall>cmp. normalize cmp ''http://a.com/b//'' = Some ''http://a.com/b/''
     \<and> Option.bind (normalize cmp ''http://a.com/b//'') (normalize cmp)
         = Some ''http://a.com/b''"
  by (rule allI) code_simp


section \<open>The key-page selector\<close>

lemma update_fresh: "k \<notin> fst ` set al \<Longrightarrow> AList.update k v al = al @ [(k, v)]"
  by (induction al) auto

lemma fold_update_fresh:
  "distinct (map fst xs) \<Longrightarrow> fst ` set acc \<inter> fst ` set xs = {} \<Longrightarrow>
   fold (\<lambda>(k, v) m. AList.update k (g k v) m) xs acc = acc @ map (\<lambda>(k, v). (k, g k v)) xs"
proof (induction xs arbitrary: acc)
  case Nil
  then show ?case by simp
next
  case (Cons x xs)
  obtain k v where x: "x = (k, v)" by (cases x)
  have fresh: "k \<notin> fst ` set acc"
    using Cons.prems(2) by (auto simp: x)
  have disj: "fst ` set (acc @ [(k, g k v)]) \<inter> fst ` set xs = {}"
    using Cons.prems by (auto simp: x)
  have "fold (\<lambda>(k, v) m. AList.update k (g k v) m) (x # xs) acc
          = fold (\<lambda>(k, v) m. AList.update k (g k v) m) xs (acc @ [(k, g k v)])"
    by (simp add: x update_fresh [OF fresh])
  also have "\<dots> = (acc @ [(k, g k v)]) @ map (\<lambda>(k, v). (k, g k v)) xs"
    using Cons.prems(1) by (intro Cons.IH [OF _ disj]) simp
  finally show ?case by (simp add: x)
qed

lemma pageScores_distinct:
  assumes "distinct (map fst pages)"
  shows "pageScores pages noiseResult incomingLinks
           = map (\<lambda>(u, page). (u, calculatePageImportance u page pages incomingLinks
                                     noiseResult)) pages"
proof -
  have "fold (scoreStep pages noiseResult incomingLinks) pages []
          = fold (\<lambda>(u, page) m. AList.update u
                    (calculatePageImportance u page pages incomingLinks noiseResult) m) pages []"
    by (rule fold_cong) (auto simp: scoreStep_def)
  then show ?thesis
    unfolding pageScores_def
    using fold_update_fresh [OF assms, of "[]"
        "\<lambda>u page. calculatePageImportance u page pages incomingLinks noiseResult"]
    by simp
qed

lemma cleanPages_distinct:
  assumes "distinct (map fst pages)"
  shows "cleanPages noise pages
           = map (\<lambda>(u, page). (u, page\<lparr>outgoingLinks :=
                                   filter (\<lambda>link. href link \<notin> set noise)
                                     (outgoingLinks page)\<rparr>)) pages"
  unfolding cleanPages_def Let_def
  using fold_update_fresh [OF assms, of "[]"
      "\<lambda>u page. page\<lparr>outgoingLinks := filter (\<lambda>link. href link \<notin> set noise)
                                           (outgoingLinks page)\<rparr>"]
  by simp

lemma map_fst_sortedPages:
  assumes "distinct (map fst pages)"
  shows "distinct (map fst (sortedPages pages noiseResult incomingLinks))"
    and "length (sortedPages pages noiseResult incomingLinks) = length pages"
    and "fst ` set (sortedPages pages noiseResult incomingLinks) = fst ` set pages"
proof -
  let ?ps = "pageScores pages noiseResult incomingLinks"
  have keys: "map fst ?ps = map fst pages"
    by (simp add: pageScores_distinct [OF assms] comp_def case_prod_unfold)
  then have d: "distinct (map fst ?ps)"
    using assms by simp
  then show "distinct (map fst (sortedPages pages noiseResult incomingLinks))"
    by (simp add: sortedPages_def distinct_map)
  show "length (sortedPages pages noiseResult incomingLinks) = length pages"
    using keys by (simp add: sortedPages_def) (metis length_map)
  show "fst ` set (sortedPages pages noiseResult incomingLinks) = fst ` set pages"
    using keys by (simp add: sortedPages_def) (metis set_map)
qed

lemma fold_add_pairs:
  "fold (\<lambda>(u, score) keyPages. add u keyPages) xs acc = fold add (map fst xs) acc"
  by (induction xs arbitrary: acc) (auto simp: case_prod_unfold)

lemma set_fold_add: "set (fold add xs acc) = set acc \<union> set xs"
  by (induction xs arbitrary: acc) auto

lemma targetNodeCount_ge: "10 \<le> targetNodeCount n"
  by (simp add: targetNodeCount_def)

lemma targetNodeCount_le: "targetNodeCount n \<le> 30"
  by (simp add: targetNodeCount_def MAX_NODES_IN_FLOW_def)

text \<open>The set \<open>keyPages\<close> after the loop over \<open>topPages\<close>.\<close>

lemma topPages_keys:
  assumes "distinct (map fst pages)"
  shows "fold (\<lambda>(u, score) keyPages. add u keyPages)
           (take k (sortedPages pages noiseResult incomingLinks)) []
         = map fst (take k (sortedPages pages noiseResult incomingLinks))"
proof -
  have "distinct (map fst (take k (sortedPages pages noiseResult incomingLinks)))"
    using map_fst_sortedPages(1) [OF assms] by (simp add: take_map [symmetric] distinct_take)
  then show ?thesis
    by (simp add: fold_add_pairs fold_add_distinct)
qed

lemma selectedKeyPages_distinct:
  assumes "distinct (map fst pages)"
  shows "selectedKeyPages pages noiseResult incomingLinks
           = (let top = map fst (take (targetNodeCount (length pages))
                                   (sortedPages pages noiseResult incomingLinks))
              in case pages of
                   [] \<Rightarrow> top
                 | (startPage, p) # rest \<Rightarrow> if startPage \<noteq> [] then add startPage top else top)"
  unfolding selectedKeyPages_def Let_def topPages_keys [OF assms] by (rule refl)

lemma length_selectedKeyPages_ge:
  assumes "distinct (map fst pages)"
  shows "min (length pages) 10 \<le> length (selectedKeyPages pages noiseResult incomingLinks)"
proof -
  let ?top = "map fst (take (targetNodeCount (length pages))
                         (sortedPages pages noiseResult incomingLinks))"
  have len: "length (sortedPages pages noiseResult incomingLinks) = length pages"
    by (rule map_fst_sortedPages(2) [OF assms])
  have "length ?top = min (length pages) (targetNodeCount (length pages))"
    by (simp add: len)
  then have a: "min (length pages) 10 \<le> length ?top"
    using targetNodeCount_ge [of "length pages"] by linarith
  have b: "length ?top \<le> length (selectedKeyPages pages noiseResult incomingLinks)"
    unfolding selectedKeyPages_distinct [OF assms] Let_def
    by (auto simp: add_def split: list.splits)
  from a b show ?thesis by (rule order_trans)
qed

lemma identifyKeyPages_distinct:
  assumes "distinct (map fst pages)"
  shows "identifyKeyPages pages noiseResult incomingLinks
           = selectedKeyPages pages noiseResult incomingLinks"
proof -
  have "min (length pages) 10 \<le> length (selectedKeyPages pages noiseResult incomingLinks)"
    by (rule length_selectedKeyPages_ge [OF assms])
  then have "\<not> (length (selectedKeyPages pages noiseResult incomingLinks) < 5
                 \<and> length pages \<ge> 5)"
    by auto
  then show ?thesis
    unfolding identifyKeyPages_def Let_def by (rule if_not_P)
qed

text \<open>
  Claim C10: for a page map (an association list with distinct keys), the set selected
  before the safety check has at least \<open>min(totalPages, 10)\<close> elements, so the test of the
  safety check (fewer than 5 key pages and at least 5 pages) is false, and
  \<open>identifyKeyPages\<close> returns the selected set as it is: the widening to the top
  \<open>min(15, totalPages)\<close> pages never runs.
\<close>

theorem widening_branch_unreachable:
  assumes "distinct (map fst pages)"
  shows "min (length pages) 10 \<le> length (selectedKeyPages pages noiseResult incomingLinks)
         \<and> \<not> (length (selectedKeyPages pages noiseResult incomingLinks) < 5 \<and> length pages \<ge> 5)
         \<and> identifyKeyPages pages noiseResult incomingLinks
             = selectedKeyPages pages noiseResult incomingLinks"
proof -
  have ge: "min (length pages) 10 \<le> length (selectedKeyPages pages noiseResult incomingLinks)"
    by (rule length_selectedKeyPages_ge [OF assms])
  then have dead: "\<not> (length (selectedKeyPages pages noiseResult incomingLinks) < 5
                      \<and> length pages \<ge> 5)"
    by auto
  show ?thesis
    using ge dead identifyKeyPages_distinct [OF assms] by blast
qed

theorem widening_branch_unreachable_witness:
  "distinct (map fst shopCrawl)
   \<and> min (length shopCrawl) 10
       \<le> length (selectedKeyPages shopCrawl (reduceNoise shopCrawl)
                   (buildIncomingLinksMap shopCrawl (reduceNoise shopCrawl)))
   \<and> analyzeKeyPages shopCrawl
       = selectedKeyPages shopCrawl (reduceNoise shopCrawl)
           (buildIncomingLinksMap shopCrawl (reduceNoise shopCrawl))"
proof -
  have a: "distinct (map fst shopCrawl)"
    by code_simp
  from a widening_branch_unreachable [OF a, of "reduceNoise shopCrawl"
      "buildIncomingLinksMap shopCrawl (reduceNoise shopCrawl)"]
  show ?thesis by (simp add: analyzeKeyPages_def)
qed

lemma sorted_take_count:
  fixes f :: "'a \<Rightarrow> 'b::linorder"
  assumes "sorted (map f ys)" and "x \<in> set (take k ys)"
  shows "length (filter (\<lambda>y. f y < f x) ys) < k"
proof -
  from assms(2) obtain i where i: "i < length (take k ys)" and x: "take k ys ! i = x"
    by (auto simp: in_set_conv_nth)
  then have ik: "i < k" and il: "i < length ys" and xi: "ys ! i = x"
    by auto
  have "\<not> f y < f x" if "y \<in> set (drop i ys)" for y
  proof -
    from that obtain j where j: "j < length (drop i ys)" and y: "drop i ys ! j = y"
      by (auto simp: in_set_conv_nth)
    then have "y = ys ! (i + j)" and "i + j < length ys"
      by auto
    moreover have "map f ys ! i \<le> map f ys ! (i + j)"
      using assms(1) \<open>i + j < length ys\<close> by (intro sorted_nth_mono) auto
    ultimately show ?thesis
      using il xi by auto
  qed
  then have "filter (\<lambda>y. f y < f x) (drop i ys) = []"
    by (auto simp: filter_empty_conv)
  then have "filter (\<lambda>y. f y < f x) ys = filter (\<lambda>y. f y < f x) (take i ys)"
    by (metis append_Nil2 append_take_drop_id filter_append)
  then have "length (filter (\<lambda>y. f y < f x) ys) \<le> i"
    by (metis length_filter_le length_take min.cobounded2 order_trans)
  with ik show ?thesis by simp
qed

lemma take_sort_key_count:
  fixes f :: "'a \<Rightarrow> 'b::linorder"
  assumes "x \<in> set (take k (sort_key f xs))"
  shows "length (filter (\<lambda>y. f y < f x) xs) < k"
proof -
  have "length (filter (\<lambda>y. f y < f x) (sort_key f xs)) < k"
    using assms by (intro sorted_take_count) simp_all
  then show ?thesis
    by (simp add: filter_sort)
qed

text \<open>
  A page that is outscored by at least \<open>k\<close> pages is not among the first \<open>k\<close> of
  \<open>sortedPages\<close>.
\<close>

lemma outscored_not_in_top:
  assumes d: "distinct (map fst pages)"
    and e: "(u, page) \<in> set pages"
    and k: "k \<le> length (filter (\<lambda>(v, q).
                calculatePageImportance u page pages incomingLinks noiseResult
                  < calculatePageImportance v q pages incomingLinks noiseResult) pages)"
  shows "u \<notin> set (map fst (take k (sortedPages pages noiseResult incomingLinks)))"
proof
  let ?sc = "\<lambda>(v, q). (v, calculatePageImportance v q pages incomingLinks noiseResult)"
  let ?f = "\<lambda>(v, s :: rat). - s"
  assume "u \<in> set (map fst (take k (sortedPages pages noiseResult incomingLinks)))"
  then obtain s where s: "(u, s) \<in> set (take k (sortedPages pages noiseResult incomingLinks))"
    by auto
  then have "(u, s) \<in> set (pageScores pages noiseResult incomingLinks)"
    by (auto simp: sortedPages_def dest: in_set_takeD)
  then obtain q where q: "(u, q) \<in> set pages"
      and sq: "s = calculatePageImportance u q pages incomingLinks noiseResult"
    by (auto simp: pageScores_distinct [OF d])
  from d e q have "q = page"
    by (meson eq_key_imp_eq_value)
  with sq have su: "s = calculatePageImportance u page pages incomingLinks noiseResult"
    by simp
  have "length (filter (\<lambda>y. ?f y < ?f (u, s)) (pageScores pages noiseResult incomingLinks)) < k"
    using s unfolding sortedPages_def by (rule take_sort_key_count)
  moreover have "filter (\<lambda>y. ?f y < ?f (u, s)) (pageScores pages noiseResult incomingLinks)
                   = map ?sc (filter (\<lambda>(v, q).
                       calculatePageImportance u page pages incomingLinks noiseResult
                         < calculatePageImportance v q pages incomingLinks noiseResult) pages)"
    by (simp add: pageScores_distinct [OF d] filter_map comp_def case_prod_unfold su)
  ultimately show False
    using k by simp
qed

text \<open>Hub pages and incoming counts only concern hrefs that occur in the page map.\<close>

lemma hubStep_subset: "set (fold (hubStep n) xs acc) \<subseteq> set acc \<union> fst ` set xs"
proof (induction xs arbitrary: acc)
  case Nil
  then show ?case by simp
next
  case (Cons x xs)
  have "set (hubStep n x acc) \<subseteq> insert (fst x) (set acc)"
    by (auto simp: hubStep_def Let_def)
  with Cons.IH [of "hubStep n x acc"] show ?case
    by auto
qed

lemma hubScanLink_keys:
  "fst ` set (hubScanLink s l m) = insert (href l) (fst ` set m)"
  by (auto simp: hubScanLink_def Let_def dom_update)

lemma hubScanPage_keys:
  "fst ` set (fold (hubScanLink s) ls m) = fst ` set m \<union> href ` set ls"
  by (induction ls arbitrary: m) (auto simp: hubScanLink_keys)

lemma hubScan_keys:
  "fst ` set (fold hubScanPage pages m) = fst ` set m \<union> href ` set (allLinks pages)"
  by (induction pages arbitrary: m) (auto simp: hubScanPage_def hubScanPage_keys allLinks_def)

lemma identifyHubPages_subset: "set (identifyHubPages pages) \<subseteq> href ` set (allLinks pages)"
  using hubStep_subset [of "length pages" "fold hubScanPage pages []" "[]"]
  by (simp add: identifyHubPages_def Let_def hubScan_keys)

lemma reduceNoise_hubPages: "hubPages (reduceNoise pages) = identifyHubPages pages"
  by (simp add: reduceNoise_def Let_def)

lemma reduceNoise_cleanedPages:
  "\<exists>noise. cleanedPages (reduceNoise pages) = cleanPages noise pages"
  by (auto simp: reduceNoise_def Let_def)

lemma allLinks_cleanPages:
  assumes "distinct (map fst pages)"
  shows "set (allLinks (cleanPages noise pages)) \<subseteq> set (allLinks pages)"
  by (auto simp: cleanPages_distinct [OF assms] allLinks_def)

lemma incomingCount_unlinked:
  assumes "distinct (map fst pages)" and "u \<notin> href ` set (allLinks pages)"
  shows "incomingCount (buildIncomingLinksMap pages (reduceNoise pages)) u = 0"
proof -
  obtain noise where c: "cleanedPages (reduceNoise pages) = cleanPages noise pages"
    using reduceNoise_cleanedPages by blast
  have "u \<notin> href ` set (allLinks (cleanedPages (reduceNoise pages)))"
    using assms(2) allLinks_cleanPages [OF assms(1), of noise] unfolding c by blast
  then have "filter (\<lambda>l. href l = u) (allLinks (cleanedPages (reduceNoise pages))) = []"
    by (auto simp: filter_empty_conv)
  then show ?thesis
    by (simp add: buildIncomingLinksMap_def fold_pages_links incomingCount_step)
       (simp add: incomingCount_def)
qed

text \<open>The shop: its keys, its links and the scores of its pages.\<close>

lemma startsWith_append: "startsWith a p \<Longrightarrow> startsWith (a @ b) p"
  by (induction a p rule: startsWith.induct) auto

lemma str_includes_append: "str_includes a p \<Longrightarrow> str_includes (a @ b) p"
proof (induction a)
  case Nil
  then show ?case by (cases b) auto
next
  case (Cons c cs)
  then show ?case
    using startsWith_append [of "c # cs" p b] by auto
qed

lemma includesAny_append: "includesAny a ps \<Longrightarrow> includesAny (a @ b) ps"
  by (induction ps) (auto intro: str_includes_append)

lemma itemUrl_bonus: "105 \<le> urlPatternBonus (itemUrl i)"
proof -
  let ?l = "toLowerCase (itemUrl i)"
  have l: "?l = toLowerCase ''http://a.io/category/product/'' @ toLowerCase (replicate i (CHR ''1''))"
    by (simp add: itemUrl_def toLowerCase_def)
  have "includesAny (toLowerCase ''http://a.io/category/product/'') [''/product'', ''/item'', ''/detail'']"
    by code_simp
  then have a: "includesAny ?l [''/product'', ''/item'', ''/detail'']"
    unfolding l by (rule includesAny_append)
  have "includesAny (toLowerCase ''http://a.io/category/product/'') [''/category'', ''/collection'', ''/browse'']"
    by code_simp
  then have b: "includesAny ?l [''/category'', ''/collection'', ''/browse'']"
    unfolding l by (rule includesAny_append)
  have "bonus True 60 + bonus True 45 \<le> urlPatternBonus (itemUrl i)"
    unfolding urlPatternBonus_def Let_def using a b
    by (simp only: simp_thms)
  then show ?thesis
    by (simp add: bonus_def)
qed

lemma itemPage_score:
  "139 \<le> calculatePageImportance (itemUrl i) (snd (itemPage i)) allPages incomingLinks
              noiseResult"
proof -
  have t: "titleKeywordBonus ''Product'' = 30"
    by code_simp
  have "185 \<le> depthFactor (snd (itemPage i)) + urlPatternBonus (itemUrl i)
                + titleKeywordBonus (title (snd (itemPage i)))"
    using itemUrl_bonus [of i] by (simp add: itemPage_def mkPage_def depthFactor_def t)
  then show ?thesis
    by (rule score_lower)
qed

lemma itemUrl_inj: "itemUrl i = itemUrl j \<longleftrightarrow> i = j"
  by (simp add: itemUrl_def replicate_eq_replicate)

lemma catalogCrawl_links: "map href (allLinks (catalogCrawl s n)) = map itemUrl [1..<Suc n]"
  unfolding catalogCrawl_def allLinks_def
  by (simp add: itemPage_def mkPage_def mkLink_def comp_def del: upt_Suc)

lemma catalogCrawl_keys: "map fst (catalogCrawl s n) = s # map itemUrl [1..<Suc n]"
  by (simp add: catalogCrawl_def mkPage_def itemPage_def comp_def)

lemma catalogCrawl_distinct:
  assumes "s \<notin> range itemUrl"
  shows "distinct (map fst (catalogCrawl s n))"
proof -
  have "distinct (map itemUrl [1..<Suc n])"
    by (simp add: distinct_map inj_on_def itemUrl_inj)
  with assms show ?thesis
    unfolding catalogCrawl_keys by auto
qed

text \<open>
  When the start page of the shop scores no URL bonus, every product page outscores it:
  the start page has at most 130 points, a product page at least 139.
\<close>

lemma catalogCrawl_start_score:
  assumes "s \<notin> range itemUrl" and "urlPatternBonus s = 0"
  shows "calculatePageImportance s (snd (hd (catalogCrawl s n))) (catalogCrawl s n)
           (buildIncomingLinksMap (catalogCrawl s n) (reduceNoise (catalogCrawl s n)))
           (reduceNoise (catalogCrawl s n)) \<le> 130"
proof -
  let ?pages = "catalogCrawl s n"
  let ?nr = "reduceNoise ?pages"
  let ?inc = "buildIncomingLinksMap ?pages ?nr"
  let ?p = "snd (hd ?pages)"
  have "href ` set (allLinks ?pages) = set (map href (allLinks ?pages))"
    by simp
  also have "\<dots> = set (map itemUrl [1..<Suc n])"
    by (simp only: catalogCrawl_links)
  finally have unlinked: "s \<notin> href ` set (allLinks ?pages)"
    using assms(1) by (auto simp del: upt_Suc)
  have hub: "s \<notin> set (hubPages ?nr)"
    using unlinked identifyHubPages_subset [of ?pages] by (auto simp: reduceNoise_hubPages)
  have inc: "incomingCount ?inc s = 0"
    by (rule incomingCount_unlinked [OF catalogCrawl_distinct [OF assms(1)] unlinked])
  have t: "titleKeywordBonus ''Welcome'' = 0"
    by code_simp
  have "calculatePageImportance s ?p ?pages ?inc ?nr
          \<le> of_nat (depthFactor ?p + 60 + urlPatternBonus s + titleKeywordBonus (title ?p) + 10)"
    by (rule score_upper [OF hub inc])
  moreover have "depthFactor ?p = 60" "title ?p = ''Welcome''"
    by (simp_all add: catalogCrawl_def mkPage_def depthFactor_def)
  ultimately show ?thesis
    by (simp add: assms(2) t)
qed

lemma catalogCrawl_outscored:
  assumes "s \<notin> range itemUrl" and "urlPatternBonus s = 0"
  shows "n \<le> length (filter (\<lambda>(v, q).
            calculatePageImportance s (snd (hd (catalogCrawl s n))) (catalogCrawl s n)
              (buildIncomingLinksMap (catalogCrawl s n) (reduceNoise (catalogCrawl s n)))
              (reduceNoise (catalogCrawl s n))
            < calculatePageImportance v q (catalogCrawl s n)
              (buildIncomingLinksMap (catalogCrawl s n) (reduceNoise (catalogCrawl s n)))
              (reduceNoise (catalogCrawl s n))) (catalogCrawl s n))"
proof -
  let ?pages = "catalogCrawl s n"
  let ?nr = "reduceNoise ?pages"
  let ?inc = "buildIncomingLinksMap ?pages ?nr"
  let ?P = "\<lambda>(v, q). calculatePageImportance s (snd (hd ?pages)) ?pages ?inc ?nr
                      < calculatePageImportance v q ?pages ?inc ?nr"
  have "?P (itemPage i)" for i
    using catalogCrawl_start_score [OF assms, of n]
      itemPage_score [of i ?pages ?inc ?nr]
    by (simp add: itemPage_def mkPage_def)
  then have "filter ?P (map itemPage [1..<Suc n]) = map itemPage [1..<Suc n]"
    by (intro filter_True) auto
  then have "length (filter ?P (map itemPage [1..<Suc n])) = n"
    by simp
  moreover have "length (filter ?P (map itemPage [1..<Suc n])) \<le> length (filter ?P ?pages)"
    by (subst (2) catalogCrawl_def) simp
  ultimately show ?thesis
    by simp
qed

lemma catalogCrawl_start_outside:
  assumes "s \<notin> range itemUrl" and "urlPatternBonus s = 0" and "k \<le> n"
  shows "s \<notin> set (map fst (take k (sortedPages (catalogCrawl s n) (reduceNoise (catalogCrawl s n))
           (buildIncomingLinksMap (catalogCrawl s n) (reduceNoise (catalogCrawl s n))))))"
proof (rule outscored_not_in_top [OF catalogCrawl_distinct [OF assms(1)]])
  show "(s, snd (hd (catalogCrawl s n))) \<in> set (catalogCrawl s n)"
    by (simp add: catalogCrawl_def mkPage_def)
  show "k \<le> length (filter (\<lambda>(v, q).
            calculatePageImportance s (snd (hd (catalogCrawl s n))) (catalogCrawl s n)
              (buildIncomingLinksMap (catalogCrawl s n) (reduceNoise (catalogCrawl s n)))
              (reduceNoise (catalogCrawl s n))
            < calculatePageImportance v q (catalogCrawl s n)
              (buildIncomingLinksMap (catalogCrawl s n) (reduceNoise (catalogCrawl s n)))
              (reduceNoise (catalogCrawl s n))) (catalogCrawl s n))"
    using catalogCrawl_outscored [OF assms(1,2), of n] assms(3) by (rule_tac order_trans)
qed

lemma catalogCrawl_keyPages:
  assumes "s \<notin> range itemUrl" and "urlPatternBonus s = 0"
    and "targetNodeCount (Suc n) \<le> n"
  shows "analyzeKeyPages (catalogCrawl s n)
           = (let top = map fst (take (targetNodeCount (Suc n))
                (sortedPages (catalogCrawl s n) (reduceNoise (catalogCrawl s n))
                   (buildIncomingLinksMap (catalogCrawl s n) (reduceNoise (catalogCrawl s n)))))
              in if s \<noteq> [] then top @ [s] else top)"
    and "s \<notin> set (map fst (take (targetNodeCount (Suc n))
                (sortedPages (catalogCrawl s n) (reduceNoise (catalogCrawl s n))
                   (buildIncomingLinksMap (catalogCrawl s n) (reduceNoise (catalogCrawl s n))))))"
    and "length (take (targetNodeCount (Suc n))
                (sortedPages (catalogCrawl s n) (reduceNoise (catalogCrawl s n))
                   (buildIncomingLinksMap (catalogCrawl s n) (reduceNoise (catalogCrawl s n)))))
           = targetNodeCount (Suc n)"
proof -
  let ?pages = "catalogCrawl s n"
  let ?sorted = "sortedPages ?pages (reduceNoise ?pages)
                   (buildIncomingLinksMap ?pages (reduceNoise ?pages))"
  have d: "distinct (map fst ?pages)"
    by (rule catalogCrawl_distinct [OF assms(1)])
  have len: "length ?pages = Suc n"
    by (simp add: catalogCrawl_def)
  show out: "s \<notin> set (map fst (take (targetNodeCount (Suc n)) ?sorted))"
    by (rule catalogCrawl_start_outside [OF assms])
  have "analyzeKeyPages ?pages
          = selectedKeyPages ?pages (reduceNoise ?pages)
              (buildIncomingLinksMap ?pages (reduceNoise ?pages))"
    by (simp add: analyzeKeyPages_def identifyKeyPages_distinct [OF d])
  also have "\<dots> = (let top = map fst (take (targetNodeCount (Suc n)) ?sorted)
                    in if s \<noteq> [] then add s top else top)"
    unfolding selectedKeyPages_distinct [OF d] len
    by (simp add: catalogCrawl_def mkPage_def)
  finally show "analyzeKeyPages ?pages
          = (let top = map fst (take (targetNodeCount (Suc n)) ?sorted)
             in if s \<noteq> [] then top @ [s] else top)"
    using out by (simp add: Let_def add_def)
  show "length (take (targetNodeCount (Suc n)) ?sorted) = targetNodeCount (Suc n)"
    using assms(3) by (simp add: map_fst_sortedPages(2) [OF d] len)
qed

lemma targetNodeCount_97: "targetNodeCount 97 = 30"
  by code_simp

lemma targetNodeCount_11: "targetNodeCount 11 = 10"
  by code_simp

text \<open>
  For 34 pages or more the selector returns between 10 and 31 key pages: the first
  \<open>targetNodeCount\<close> of the sorted pages, and the start page when it is not one of them.
\<close>

lemma length_identifyKeyPages_bounds:
  assumes "distinct (map fst pages)" and "34 \<le> length pages"
  shows "10 \<le> length (identifyKeyPages pages noiseResult incomingLinks)"
    and "length (identifyKeyPages pages noiseResult incomingLinks) \<le> 31"
proof -
  let ?top = "map fst (take (targetNodeCount (length pages))
                         (sortedPages pages noiseResult incomingLinks))"
  have "length ?top = min (length pages) (targetNodeCount (length pages))"
    by (simp add: map_fst_sortedPages(2) [OF assms(1)])
  then have top: "10 \<le> length ?top" "length ?top \<le> 30"
    using targetNodeCount_ge [of "length pages"] targetNodeCount_le [of "length pages"]
      assms(2) by linarith+
  have sel: "length (selectedKeyPages pages noiseResult incomingLinks) = length ?top
             \<or> length (selectedKeyPages pages noiseResult incomingLinks) = Suc (length ?top)"
    unfolding selectedKeyPages_distinct [OF assms(1)] Let_def
    by (auto simp: add_def split: list.splits)
  show "10 \<le> length (identifyKeyPages pages noiseResult incomingLinks)"
    using top sel by (auto simp: identifyKeyPages_distinct [OF assms(1)])
  show "length (identifyKeyPages pages noiseResult incomingLinks) \<le> 31"
    using top sel by (auto simp: identifyKeyPages_distinct [OF assms(1)])
qed

text \<open>
  Claim C4 (for 34 pages or more the selector returns at least 10 and at most 30 key
  pages, the inserted start page included) does not hold at a shop of 97 pages: the
  target size is 30 and all 96 product pages outscore the start page, so the start page
  is added to the 30 best pages and the selector returns 31 key pages, one more than
  \<open>MAX_NODES_IN_FLOW\<close>.
\<close>

theorem key_pages_exceed_maximum:
  "length (catalogCrawl ''http://a.io/'' 96) = 97
   \<and> length (analyzeKeyPages (catalogCrawl ''http://a.io/'' 96)) = 31"
proof -
  have a: "''http://a.io/'' \<notin> range itemUrl"
    by (auto simp: itemUrl_def)
  have b: "urlPatternBonus ''http://a.io/'' = 0"
    by code_simp
  have c: "targetNodeCount (Suc 96) \<le> 96"
    by (simp add: targetNodeCount_97)
  show ?thesis
    using catalogCrawl_keyPages(3) [OF a b c]
    by (simp add: catalogCrawl_keyPages(1) [OF a b c] Let_def targetNodeCount_97)
       (simp add: catalogCrawl_def)
qed

text \<open>
  Claim C9: the first-inserted page of a non-empty page map is a member of the returned
  key-page set, whatever its score. The keys of a page map are the URLs of the crawled
  pages, and a URL is not the empty string, which is what the test \<open>if (startPage)\<close>
  of the insertion asks of the first key.
\<close>

theorem start_page_selected:
  assumes "pages \<noteq> []" and "fst (hd pages) \<noteq> []"
  shows "fst (hd pages) \<in> set (identifyKeyPages pages noiseResult incomingLinks)"
proof -
  from assms obtain startPage p rest where pages: "pages = (startPage, p) # rest"
      and ne: "startPage \<noteq> []"
    by (cases pages) auto
  have "startPage \<in> set (selectedKeyPages pages noiseResult incomingLinks)"
    by (simp add: selectedKeyPages_def Let_def pages ne)
  then have "startPage \<in> set (identifyKeyPages pages noiseResult incomingLinks)"
    by (simp add: identifyKeyPages_def Let_def fold_add_pairs set_fold_add)
  then show ?thesis
    by (simp add: pages)
qed

text \<open>
  In a shop of 11 pages the ten product pages outscore the start page: the start page is
  not one of the ten best pages, and it is a key page.
\<close>

theorem start_page_selected_witness:
  "catalogCrawl ''http://a.io/'' 10 \<noteq> []
   \<and> fst (hd (catalogCrawl ''http://a.io/'' 10)) = ''http://a.io/''
   \<and> ''http://a.io/''
       \<notin> set (map fst (take (targetNodeCount (length (catalogCrawl ''http://a.io/'' 10)))
                (sortedPages (catalogCrawl ''http://a.io/'' 10)
                   (reduceNoise (catalogCrawl ''http://a.io/'' 10))
                   (buildIncomingLinksMap (catalogCrawl ''http://a.io/'' 10)
                      (reduceNoise (catalogCrawl ''http://a.io/'' 10))))))
   \<and> ''http://a.io/'' \<in> set (analyzeKeyPages (catalogCrawl ''http://a.io/'' 10))"
proof -
  let ?pages = "catalogCrawl ''http://a.io/'' 10"
  have a: "?pages \<noteq> []"
    by (simp add: catalogCrawl_def)
  have b: "fst (hd ?pages) = ''http://a.io/''"
    by (simp add: catalogCrawl_def mkPage_def)
  have c: "fst (hd ?pages) \<noteq> []"
    by (simp add: b)
  have d: "''http://a.io/'' \<notin> range itemUrl"
    by (auto simp: itemUrl_def)
  have e: "urlPatternBonus ''http://a.io/'' = 0"
    by code_simp
  have f: "length ?pages = Suc 10"
    by (simp add: catalogCrawl_def)
  have t: "targetNodeCount (Suc 10) \<le> 10"
    by (simp add: targetNodeCount_11)
  have g: "''http://a.io/''
       \<notin> set (map fst (take (targetNodeCount (length ?pages))
                (sortedPages ?pages (reduceNoise ?pages)
                   (buildIncomingLinksMap ?pages (reduceNoise ?pages)))))"
    unfolding f by (rule catalogCrawl_start_outside [OF d e t])
  from start_page_selected [OF a c, of "reduceNoise ?pages"
      "buildIncomingLinksMap ?pages (reduceNoise ?pages)"]
  have "''http://a.io/'' \<in> set (analyzeKeyPages ?pages)"
    by (simp only: b analyzeKeyPages_def)
  with a b g show ?thesis
    by (simp only: simp_thms)
qed

end
